theory Spec2Isabelle
  imports Complex_Main "HOL-Library.Word"
begin

section \<open>Python values: errors, indexing, strings\<close>

text \<open>
  An exception is a value carrying the text that \<^verbatim>\<open>str(e)\<close> prints. A call that can raise
  returns \<open>error + 'a\<close>, with \<open>Inl\<close> for the exception.
\<close>

datatype error =
    IndexError string
  | ValueError string
  | OSError string
  | Exception string

fun str_error :: "error \<Rightarrow> string" where
  "str_error (IndexError m) = m"
| "str_error (ValueError m) = m"
| "str_error (OSError m) = m"
| "str_error (Exception m) = m"

text \<open>\<^verbatim>\<open>xs[i]\<close> for an index that is never negative: out of range raises.\<close>

definition getitem :: "'a list \<Rightarrow> nat \<Rightarrow> error + 'a" where
  "getitem xs i =
     (if i < length xs then Inr (xs ! i) else Inl (IndexError ''list index out of range''))"

text \<open>\<^verbatim>\<open>str(n)\<close> for a non-negative integer: its decimal digits.\<close>

definition digit_char :: "nat \<Rightarrow> char" where
  "digit_char d = char_of (48 + d)"

function str_nat :: "nat \<Rightarrow> string" where
  "str_nat n = (if n < 10 then [digit_char n] else str_nat (n div 10) @ [digit_char (n mod 10)])"
  by pat_completeness auto
termination
  by (relation "measure id") auto

declare str_nat.simps [simp del]

text \<open>
  \<^verbatim>\<open>str.lower()\<close> on the ASCII letters; every other byte is left as it is, which is what
  decides whether a name ends with one of the ASCII suffixes below.
\<close>

definition lower_char :: "char \<Rightarrow> char" where
  "lower_char c =
     (let n = (of_char c :: nat) in if 65 \<le> n \<and> n \<le> 90 then char_of (n + 32) else c)"

definition lower :: "string \<Rightarrow> string" where
  "lower s = map lower_char s"

definition startswith :: "string \<Rightarrow> string \<Rightarrow> bool" where
  "startswith s pre = (take (length pre) s = pre)"

definition endswith :: "string \<Rightarrow> string \<Rightarrow> bool" where
  "endswith s suf = (length suf \<le> length s \<and> drop (length s - length suf) s = suf)"

text \<open>\<^verbatim>\<open>s.endswith((a, b, c))\<close>: true when some member of the tuple is a suffix.\<close>

definition endswith_any :: "string \<Rightarrow> string list \<Rightarrow> bool" where
  "endswith_any s sufs = list_ex (endswith s) sufs"

text \<open>\<^verbatim>\<open>s.rfind(c)\<close>: the highest index holding \<open>c\<close>, or \<open>-1\<close>.\<close>

fun rfind :: "string \<Rightarrow> char \<Rightarrow> int" where
  "rfind [] c = - 1"
| "rfind (x # xs) c =
     (let r = rfind xs c in if 0 \<le> r then r + 1 else if x = c then 0 else - 1)"

section \<open>\<^verbatim>\<open>os.path\<close> on POSIX\<close>

text \<open>
  \<^verbatim>\<open>os.path.join(a, b)\<close> with separator \<^verbatim>\<open>/\<close>: an absolute second component replaces
  the first.
\<close>

definition path_join :: "string \<Rightarrow> string \<Rightarrow> string" where
  "path_join a b =
     (if startswith b ''/'' then b
      else if a = [] \<or> endswith a ''/'' then a @ b
      else a @ ''/'' @ b)"

text \<open>
  \<^verbatim>\<open>os.path.splitext(p)\<close>: the split is at the last dot after the last separator, and
  only when some character between the separator and that dot is not a dot; the loop
  below is the library's scan over the leading dots.
\<close>

function skip_dots :: "string \<Rightarrow> int \<Rightarrow> int \<Rightarrow> (string \<times> string) option" where
  "skip_dots p filenameIndex dotIndex =
     (if filenameIndex < dotIndex then
        (if take 1 (drop (nat filenameIndex) p) \<noteq> ''.''
         then Some (take (nat dotIndex) p, drop (nat dotIndex) p)
         else skip_dots p (filenameIndex + 1) dotIndex)
      else None)"
  by pat_completeness auto
termination
  by (relation "measure (\<lambda>(p, f, d). nat (d - f))") auto

declare skip_dots.simps [simp del]

definition splitext :: "string \<Rightarrow> string \<times> string" where
  "splitext p =
     (let sepIndex = rfind p CHR ''/'';
          dotIndex = rfind p CHR ''.''
      in if sepIndex < dotIndex then
           (case skip_dots p (sepIndex + 1) dotIndex of
              Some r \<Rightarrow> r
            | None \<Rightarrow> (p, []))
         else (p, []))"

section \<open>Images, frames and the trace of external effects\<close>

text \<open>
  An image is rows of pixels of 8-bit channels. A frame is the image read from the video
  together with the drawing calls made on it so far, in order: \<^verbatim>\<open>cv2.rectangle\<close> and
  \<^verbatim>\<open>cv2.putText\<close> change the frame in place, and how they rasterise is the library's.
\<close>

type_synonym pixel = "8 word list"
type_synonym img = "pixel list list"
type_synonym point = "int \<times> int"
type_synonym colour = "int \<times> int \<times> int"

text \<open>A face location is \<open>(top, right, bottom, left)\<close>.\<close>

type_synonym location = "int \<times> int \<times> int \<times> int"

datatype draw =
    Rectangle point point colour int
  | PutText string point int rat colour int

record frame =
  pixels :: img
  drawn :: "draw list"

definition FILLED :: int where
  "FILLED = - 1"

definition FONT_HERSHEY_DUPLEX :: int where
  "FONT_HERSHEY_DUPLEX = 2"

text \<open>\<^verbatim>\<open>frame[:, :, ::-1]\<close>: every pixel's channels in reverse order.\<close>

definition reverse_channels :: "img \<Rightarrow> img" where
  "reverse_channels im = map (map rev) im"

datatype engine_fn =
    Load_image_file
  | Face_locations
  | Face_encodings
  | Compare_faces
  | Face_distance

text \<open>
  What the program does to the outside, in order: lines printed, calls into the
  recognition engine, the video source and sink opened, frames written, handles released.
\<close>

datatype event =
    Print string
  | Call engine_fn
  | VideoCapture string
  | VideoWriter string int int "int \<times> int"
  | Write frame
  | Capture_release
  | Writer_release
  | DestroyAllWindows

fun printed :: "event list \<Rightarrow> string list" where
  "printed [] = []"
| "printed (Print s # es) = s # printed es"
| "printed (e # es) = printed es"

fun written :: "event list \<Rightarrow> frame list" where
  "written [] = []"
| "written (Write f # es) = f # written es"
| "written (e # es) = written es"

fun labels :: "draw list \<Rightarrow> string list" where
  "labels [] = []"
| "labels (PutText s org font scale col th # ds) = s # labels ds"
| "labels (d # ds) = labels ds"

section \<open>The external collaborators\<close>

text \<open>
  The recognition engine is a parameter: encodings are of any type \<open>'e\<close>, distances of
  any linearly ordered type \<open>'d\<close> (a distance that is not a number is outside the model).
  \<open>face_encodings im None\<close> is the call without locations, \<open>face_encodings im (Some ls)\<close>
  the call with them. Every call may raise.
\<close>

record ('e, 'd) engine =
  load_image_file :: "string \<Rightarrow> error + img"
  face_locations :: "img \<Rightarrow> error + location list"
  face_encodings :: "img \<Rightarrow> location list option \<Rightarrow> error + 'e list"
  compare_faces :: "'e list \<Rightarrow> 'e \<Rightarrow> error + bool list"
  face_distance :: "'e list \<Rightarrow> 'e \<Rightarrow> error + 'd list"

datatype cap_prop = CAP_PROP_FRAME_WIDTH | CAP_PROP_FRAME_HEIGHT | CAP_PROP_FPS

text \<open>
  The filesystem and the video library. A property of a capture is a floating-point
  number, here the rational it denotes. \<open>capture_frames\<close> is the finite sequence of
  frames that \<^verbatim>\<open>read()\<close> returns before it first reports that there is none.
\<close>

record world =
  path_exists :: "string \<Rightarrow> bool"
  listdir :: "string \<Rightarrow> error + string list"
  capture_isOpened :: "string \<Rightarrow> bool"
  capture_get :: "string \<Rightarrow> cap_prop \<Rightarrow> rat"
  capture_frames :: "string \<Rightarrow> img list"
  writer_isOpened :: "string \<Rightarrow> int \<Rightarrow> int \<Rightarrow> int \<times> int \<Rightarrow> bool"

text \<open>\<^verbatim>\<open>int(x)\<close> on a float truncates toward zero.\<close>

definition py_int :: "rat \<Rightarrow> int" where
  "py_int x = (if 0 \<le> x then \<lfloor>x\<rfloor> else \<lceil>x\<rceil>)"

text \<open>\<^verbatim>\<open>cv2.VideoWriter_fourcc\<close>: the four character codes, little-endian.\<close>

definition VideoWriter_fourcc :: "char \<Rightarrow> char \<Rightarrow> char \<Rightarrow> char \<Rightarrow> int" where
  "VideoWriter_fourcc c1 c2 c3 c4 =
     of_char c1 + of_char c2 * 256 + of_char c3 * 65536 + of_char c4 * 16777216"

text \<open>
  \<^verbatim>\<open>ndarray.argmin()\<close>: the index of the first smallest element; an empty array raises.
\<close>

fun argmin_from :: "'d::linorder list \<Rightarrow> nat \<Rightarrow> nat \<Rightarrow> 'd \<Rightarrow> nat" where
  "argmin_from [] i best v = best"
| "argmin_from (x # xs) i best v =
     (if x < v then argmin_from xs (Suc i) i x else argmin_from xs (Suc i) best v)"

definition argmin :: "'d::linorder list \<Rightarrow> error + nat" where
  "argmin xs =
     (case xs of
        [] \<Rightarrow> Inl (ValueError ''attempt to get argmin of an empty sequence'')
      | x # rest \<Rightarrow> Inr (argmin_from rest 1 0 x))"

section \<open>The Face Reference Loader\<close>

definition quote :: string where
  "quote = [CHR 0x27]"

text \<open>
  The body of the loop of \<^verbatim>\<open>load_known_faces\<close> for one directory entry: the state is the
  pair of lists built so far. A file with an eligible suffix is loaded and encoded inside
  \<^verbatim>\<open>try\<close>; any exception is printed and the file is skipped.
\<close>

text \<open>The test on a directory entry: its lower-cased name ends with an image suffix.\<close>

definition eligible :: "string \<Rightarrow> bool" where
  "eligible filename = endswith_any (lower filename) [''.jpg'', ''.jpeg'', ''.png'']"

definition load_face ::
  "('e, 'd) engine \<Rightarrow> string \<Rightarrow> string \<Rightarrow> 'e list \<times> string list
     \<Rightarrow> event list \<times> ('e list \<times> string list)" where
  "load_face eng known_faces_dir filename st =
     (case st of (known_face_encodings, known_face_names) \<Rightarrow>
        if eligible filename then
          (let image_path = path_join known_faces_dir filename;
               loading = [Print (''Loading face from: '' @ image_path), Call Load_image_file]
           in case load_image_file eng image_path of
                Inl e \<Rightarrow>
                  (loading @
                     [Print (''Error loading image '' @ filename @ '': '' @ str_error e)], st)
              | Inr im \<Rightarrow>
                  (case face_encodings eng im None of
                     Inl e \<Rightarrow>
                       (loading @
                          [Call Face_encodings,
                           Print (''Error loading image '' @ filename @ '': '' @ str_error e)],
                        st)
                   | Inr [] \<Rightarrow>
                       (loading @
                          [Call Face_encodings,
                           Print (''Warning: No face found in '' @ filename @ ''. Skipping.'')],
                        st)
                   | Inr (face_encoding # others) \<Rightarrow>
                       (loading @ [Call Face_encodings],
                        (known_face_encodings @ [face_encoding],
                         known_face_names @ [fst (splitext filename)]))))
        else ([], st))"

fun load_faces ::
  "('e, 'd) engine \<Rightarrow> string \<Rightarrow> string list \<Rightarrow> 'e list \<times> string list
     \<Rightarrow> event list \<times> ('e list \<times> string list)" where
  "load_faces eng known_faces_dir [] st = ([], st)"
| "load_faces eng known_faces_dir (filename # rest) st =
     (case load_face eng known_faces_dir filename st of
        (ev, st') \<Rightarrow>
          (case load_faces eng known_faces_dir rest st' of
             (ev', st'') \<Rightarrow> (ev @ ev', st'')))"

definition load_known_faces ::
  "world \<Rightarrow> ('e, 'd) engine \<Rightarrow> string
     \<Rightarrow> event list \<times> (error + 'e list \<times> string list)" where
  "load_known_faces w eng known_faces_dir =
     (if \<not> path_exists w known_faces_dir then
        ([Print (''Error: The directory '' @ quote @ known_faces_dir @ quote
                   @ '' does not exist.'')],
         Inr ([], []))
      else
        (case listdir w known_faces_dir of
           Inl e \<Rightarrow> ([], Inl e)
         | Inr files \<Rightarrow>
             (case load_faces eng known_faces_dir files ([], []) of
                (ev, (known_face_encodings, known_face_names)) \<Rightarrow>
                  (ev @ [Print (''Loaded '' @ str_nat (length known_face_encodings)
                                  @ '' known faces.'')],
                   Inr (known_face_encodings, known_face_names)))))"

section \<open>The Frame Annotator\<close>

text \<open>
  The name for one detected face. With known faces the two engine calls are made, the
  index of the smallest distance is taken, and the name at that index is used when the
  match flag at that index is set. Indexing out of range raises.
\<close>

definition label_face ::
  "('e, 'd::linorder) engine \<Rightarrow> 'e list \<Rightarrow> string list \<Rightarrow> 'e
     \<Rightarrow> event list \<times> (error + string)" where
  "label_face eng known_face_encodings known_face_names face_encoding =
     (if known_face_encodings \<noteq> [] then
        (case compare_faces eng known_face_encodings face_encoding of
           Inl e \<Rightarrow> ([Call Compare_faces], Inl e)
         | Inr matches \<Rightarrow>
             ([Call Compare_faces, Call Face_distance],
              (case face_distance eng known_face_encodings face_encoding of
                 Inl e \<Rightarrow> Inl e
               | Inr face_distances \<Rightarrow>
                   (case argmin face_distances of
                      Inl e \<Rightarrow> Inl e
                    | Inr best_match_index \<Rightarrow>
                        (case getitem matches best_match_index of
                           Inl e \<Rightarrow> Inl e
                         | Inr m \<Rightarrow>
                             if m then getitem known_face_names best_match_index
                             else Inr ''Unknown'')))))
      else ([], Inr ''Unknown''))"

text \<open>The body of the loop over the detected faces: the name, then the three drawing calls.\<close>

definition draw_face ::
  "('e, 'd::linorder) engine \<Rightarrow> 'e list \<Rightarrow> string list \<Rightarrow> frame \<Rightarrow> location \<times> 'e
     \<Rightarrow> event list \<times> (error + frame)" where
  "draw_face eng known_face_encodings known_face_names fr face =
     (case face of ((top', right', bottom', left'), face_encoding) \<Rightarrow>
        (case label_face eng known_face_encodings known_face_names face_encoding of
           (ev, Inl e) \<Rightarrow> (ev, Inl e)
         | (ev, Inr name) \<Rightarrow>
             (ev,
              Inr (fr\<lparr>drawn := drawn fr @
                     [Rectangle (left', top') (right', bottom') (0, 0, 255) 2,
                      Rectangle (left', bottom' - 35) (right', bottom') (0, 0, 255) FILLED,
                      PutText name (left' + 6, bottom' - 6) FONT_HERSHEY_DUPLEX 1
                        (255, 255, 255) 1]\<rparr>))))"

fun draw_faces ::
  "('e, 'd::linorder) engine \<Rightarrow> 'e list \<Rightarrow> string list \<Rightarrow> frame \<Rightarrow> (location \<times> 'e) list
     \<Rightarrow> event list \<times> (error + frame)" where
  "draw_faces eng known_face_encodings known_face_names fr [] = ([], Inr fr)"
| "draw_faces eng known_face_encodings known_face_names fr (face # faces) =
     (case draw_face eng known_face_encodings known_face_names fr face of
        (ev, Inl e) \<Rightarrow> (ev, Inl e)
      | (ev, Inr fr') \<Rightarrow>
          (case draw_faces eng known_face_encodings known_face_names fr' faces of
             (ev', r) \<Rightarrow> (ev @ ev', r)))"

section \<open>The Video Pipeline Driver\<close>

text \<open>
  The body of \<^verbatim>\<open>while True\<close> for a frame that was read: the counter goes up, the faces
  are found in the channel-reversed frame and drawn, the frame is written, and the
  counter is reported when it is a multiple of 30. An exception of the engine leaves
  the loop at once.
\<close>

definition process_frame ::
  "('e, 'd::linorder) engine \<Rightarrow> 'e list \<Rightarrow> string list \<Rightarrow> nat \<Rightarrow> img
     \<Rightarrow> event list \<times> (error + nat)" where
  "process_frame eng known_face_encodings known_face_names frame_count im =
     (let frame_count' = frame_count + 1;
          rgb_frame = reverse_channels im
      in case face_locations eng rgb_frame of
           Inl e \<Rightarrow> ([Call Face_locations], Inl e)
         | Inr locs \<Rightarrow>
             (case face_encodings eng rgb_frame (Some locs) of
                Inl e \<Rightarrow> ([Call Face_locations, Call Face_encodings], Inl e)
              | Inr encs \<Rightarrow>
                  (case draw_faces eng known_face_encodings known_face_names
                          \<lparr>pixels = im, drawn = []\<rparr> (zip locs encs) of
                     (ev, Inl e) \<Rightarrow> ([Call Face_locations, Call Face_encodings] @ ev, Inl e)
                   | (ev, Inr fr) \<Rightarrow>
                       ([Call Face_locations, Call Face_encodings] @ ev @ [Write fr] @
                          (if frame_count' mod 30 = 0
                           then [Print (''Processed '' @ str_nat frame_count' @ '' frames...'')]
                           else []),
                        Inr frame_count'))))"

fun main_loop ::
  "('e, 'd::linorder) engine \<Rightarrow> 'e list \<Rightarrow> string list \<Rightarrow> nat \<Rightarrow> img list
     \<Rightarrow> event list \<times> (error + nat)" where
  "main_loop eng known_face_encodings known_face_names frame_count [] = ([], Inr frame_count)"
| "main_loop eng known_face_encodings known_face_names frame_count (im # rest) =
     (case process_frame eng known_face_encodings known_face_names frame_count im of
        (ev, Inl e) \<Rightarrow> (ev, Inl e)
      | (ev, Inr frame_count') \<Rightarrow>
          (case main_loop eng known_face_encodings known_face_names frame_count' rest of
             (ev', r) \<Rightarrow> (ev @ ev', r)))"

text \<open>
  \<^verbatim>\<open>process_video\<close> returns nothing; the second component is the exception that
  escaped, if one did.
\<close>

definition process_video ::
  "world \<Rightarrow> ('e, 'd::linorder) engine \<Rightarrow> string \<Rightarrow> 'e list \<Rightarrow> string list
     \<Rightarrow> event list \<times> error option" where
  "process_video w eng video_path known_face_encodings known_face_names =
     (if \<not> path_exists w video_path then
        ([Print (''Error: The video file '' @ quote @ video_path @ quote
                   @ '' does not exist.'')], None)
      else if \<not> capture_isOpened w video_path then
        ([VideoCapture video_path,
          Print (''Error: Could not open video file '' @ quote @ video_path @ quote @ ''.'')],
         None)
      else
        (let frame_width = py_int (capture_get w video_path CAP_PROP_FRAME_WIDTH);
             frame_height = py_int (capture_get w video_path CAP_PROP_FRAME_HEIGHT);
             fps = py_int (capture_get w video_path CAP_PROP_FPS);
             output_video_path = ''output.avi'';
             fourcc = VideoWriter_fourcc CHR ''M'' CHR ''J'' CHR ''P'' CHR ''G'';
             opening = [VideoCapture video_path,
                        VideoWriter output_video_path fourcc fps (frame_width, frame_height)]
         in if \<not> writer_isOpened w output_video_path fourcc fps (frame_width, frame_height)
            then
              (opening @
                 [Print (''Error: Could not create output video file '' @ quote
                           @ output_video_path @ quote
                           @ ''. Ensure you have the necessary codecs.''),
                  Capture_release],
               None)
            else
              (case main_loop eng known_face_encodings known_face_names 0
                      (capture_frames w video_path) of
                 (ev, Inl e) \<Rightarrow>
                   (opening @ [Print (''Processing video: '' @ video_path)] @ ev, Some e)
               | (ev, Inr frame_count) \<Rightarrow>
                   (opening @ [Print (''Processing video: '' @ video_path)] @ ev @
                      [Print (''Finished processing video. Output saved to ''
                                @ output_video_path),
                       Capture_release, Writer_release, DestroyAllWindows],
                    None))))"

section \<open>Vocabulary of the properties\<close>

text \<open>
  What the engine finds in a directory entry: \<open>None\<close> when loading or encoding raises,
  otherwise the encodings of the faces detected, in detection order.
\<close>

definition detected :: "('e, 'd) engine \<Rightarrow> string \<Rightarrow> string \<Rightarrow> 'e list option" where
  "detected eng known_faces_dir filename =
     (case load_image_file eng (path_join known_faces_dir filename) of
        Inl e \<Rightarrow> None
      | Inr im \<Rightarrow>
          (case face_encodings eng im None of
             Inl e \<Rightarrow> None
           | Inr fes \<Rightarrow> Some fes))"

text \<open>
  The first detected face of an eligible file in which at least one face is detected;
  \<open>None\<close> for every other entry.
\<close>

definition first_face :: "('e, 'd) engine \<Rightarrow> string \<Rightarrow> string \<Rightarrow> 'e option" where
  "first_face eng known_faces_dir filename =
     (if eligible filename then
        (case detected eng known_faces_dir filename of
           Some (fe # others) \<Rightarrow> Some fe
         | _ \<Rightarrow> None)
      else None)"

definition has_face :: "('e, 'd) engine \<Rightarrow> string \<Rightarrow> string \<Rightarrow> bool" where
  "has_face eng known_faces_dir filename = (first_face eng known_faces_dir filename \<noteq> None)"

text \<open>An eligible file that loads and in which no face is detected.\<close>

definition zero_faces :: "('e, 'd) engine \<Rightarrow> string \<Rightarrow> string \<Rightarrow> bool" where
  "zero_faces eng known_faces_dir filename =
     (eligible filename \<and> detected eng known_faces_dir filename = Some [])"

text \<open>
  The file name with its extension removed, where the extension is the image suffix
  that makes the file eligible.
\<close>

definition strip_extension :: "string \<Rightarrow> string" where
  "strip_extension filename =
     (case find (endswith (lower filename)) [''.jpg'', ''.jpeg'', ''.png''] of
        Some ext \<Rightarrow> take (length filename - length ext) filename
      | None \<Rightarrow> filename)"

text \<open>The index of the first smallest element of a list.\<close>

definition first_minimum :: "'d::linorder list \<Rightarrow> nat \<Rightarrow> bool" where
  "first_minimum ds i =
     (i < length ds \<and> (\<forall>j \<in> set [0..<length ds]. ds ! i \<le> ds ! j)
        \<and> (\<forall>j \<in> set [0..<i]. ds ! i < ds ! j))"

text \<open>The sinks opened in a trace, and the traces that only hold engine calls.\<close>

fun sinks :: "event list \<Rightarrow> (string \<times> int \<times> int \<times> int \<times> int) list" where
  "sinks [] = []"
| "sinks (VideoWriter path fourcc fps dims # es) = (path, fourcc, fps, dims) # sinks es"
| "sinks (e # es) = sinks es"

fun is_call :: "event \<Rightarrow> bool" where
  "is_call (Call f) = True"
| "is_call e = False"

text \<open>The line that reports the frame counter.\<close>

definition progress_line :: "nat \<Rightarrow> string" where
  "progress_line n = ''Processed '' @ str_nat n @ '' frames...''"

section \<open>A small directory and a small video\<close>

text \<open>
  Concrete inputs on which the definitions are run: encodings and distances are integers,
  the distance is the absolute difference, and two encodings match when it is at most 6.
  The directory holds two images with faces (the first with two faces), an image with no
  face, a file that does not decode, a file that is no image, and a file named
  \<^verbatim>\<open>.jpg\<close>.
\<close>

definition alice_img :: img where
  "alice_img = [[[1, 2, 3]]]"

definition bob_img :: img where
  "bob_img = [[[4, 5, 6]]]"

definition blank_img :: img where
  "blank_img = [[[0, 0, 0]]]"

definition hidden_img :: img where
  "hidden_img = [[[7, 7, 7]]]"

definition frame_one :: img where
  "frame_one = [[[9, 8, 7], [1, 1, 2]]]"

definition frame_two :: img where
  "frame_two = [[[5, 5, 5], [5, 5, 6]]]"

definition example_engine :: "(int, int) engine" where
  "example_engine =
     \<lparr>load_image_file =
        (\<lambda>p. if p = ''known_faces/Alice.jpg'' then Inr alice_img
             else if p = ''known_faces/Bob.PNG'' then Inr bob_img
             else if p = ''known_faces/blank.jpeg'' then Inr blank_img
             else if p = ''known_faces/.jpg'' then Inr hidden_img
             else Inl (Exception ''cannot identify image file'')),
      face_locations =
        (\<lambda>im. if im = reverse_channels frame_one then Inr [(10, 90, 80, 20)] else Inr []),
      face_encodings =
        (\<lambda>im locs. if im = alice_img then Inr [10, 11]
                  else if im = bob_img then Inr [30]
                  else if im = hidden_img then Inr [50]
                  else if im = reverse_channels frame_one then Inr [12]
                  else Inr []),
      compare_faces = (\<lambda>known fe. Inr (map (\<lambda>k. \<bar>k - fe\<bar> \<le> 6) known)),
      face_distance = (\<lambda>known fe. Inr (map (\<lambda>k. \<bar>k - fe\<bar>) known))\<rparr>"

text \<open>
  An engine whose match flags do not follow its distances: every entry but the one
  encoded 24 is flagged.
\<close>

definition masking_engine :: "(int, int) engine" where
  "masking_engine = example_engine\<lparr>compare_faces := (\<lambda>known fe. Inr (map (\<lambda>k. k \<noteq> 24) known))\<rparr>"

definition example_world :: world where
  "example_world =
     \<lparr>path_exists = (\<lambda>p. p = ''known_faces'' \<or> p = ''input_video.mp4''),
      listdir =
        (\<lambda>p. if p = ''known_faces''
             then Inr [''Alice.jpg'', ''notes.txt'', ''blank.jpeg'', ''broken.png'', ''.jpg'',
                       ''Bob.PNG'']
             else Inl (OSError ''Not a directory'')),
      capture_isOpened = (\<lambda>p. p = ''input_video.mp4''),
      capture_get =
        (\<lambda>p prop. case prop of
             CAP_PROP_FRAME_WIDTH \<Rightarrow> 640
           | CAP_PROP_FRAME_HEIGHT \<Rightarrow> 480
           | CAP_PROP_FPS \<Rightarrow> 2997 / 100),
      capture_frames = (\<lambda>p. [frame_one, frame_two, frame_one]),
      writer_isOpened = (\<lambda>path fourcc fps dims. True)\<rparr>"

text \<open>
  The same world with a video of 25 frames per second, with one of half a frame per
  second, and with no codec.
\<close>

definition pal_world :: world where
  "pal_world =
     example_world\<lparr>capture_get :=
        (\<lambda>p prop. case prop of
             CAP_PROP_FRAME_WIDTH \<Rightarrow> 640
           | CAP_PROP_FRAME_HEIGHT \<Rightarrow> 480
           | CAP_PROP_FPS \<Rightarrow> 25)\<rparr>"

definition timelapse_world :: world where
  "timelapse_world =
     example_world\<lparr>capture_get :=
        (\<lambda>p prop. case prop of
             CAP_PROP_FRAME_WIDTH \<Rightarrow> 640
           | CAP_PROP_FRAME_HEIGHT \<Rightarrow> 480
           | CAP_PROP_FPS \<Rightarrow> 1 / 2)\<rparr>"

definition no_codec_world :: world where
  "no_codec_world = example_world\<lparr>writer_isOpened := (\<lambda>path fourcc fps dims. False)\<rparr>"

section \<open>Traces of the Annotator and the Driver\<close>

lemma printed_append: "printed (xs @ ys) = printed xs @ printed ys"
  by (induction xs rule: printed.induct) simp_all

lemma written_append: "written (xs @ ys) = written xs @ written ys"
  by (induction xs rule: written.induct) simp_all

lemma sinks_append: "sinks (xs @ ys) = sinks xs @ sinks ys"
  by (induction xs rule: sinks.induct) simp_all

lemma calls_silent:
  assumes "list_all is_call es"
  shows "printed es = []" and "written es = []" and "sinks es = []"
proof -
  have "printed es = [] \<and> written es = [] \<and> sinks es = []"
    using assms
  proof (induction es)
    case Nil
    then show ?case by simp
  next
    case (Cons a es)
    then show ?case by (cases a) simp_all
  qed
  then show "printed es = []" and "written es = []" and "sinks es = []"
    by simp_all
qed

lemma label_face_calls: "list_all is_call (fst (label_face eng known names fe))"
  by (simp add: label_face_def split: sum.splits)

lemma draw_face_calls: "list_all is_call (fst (draw_face eng known names fr face))"
proof -
  obtain loc fe where face: "face = (loc, fe)" by (cases face)
  obtain t r b l where loc: "loc = (t, r, b, l)" by (cases loc)
  obtain ev res where lab: "label_face eng known names fe = (ev, res)"
    by (cases "label_face eng known names fe")
  with label_face_calls [of eng known names fe] have "list_all is_call ev" by simp
  then show ?thesis
    by (cases res) (simp_all add: draw_face_def face loc lab)
qed

lemma draw_faces_calls: "list_all is_call (fst (draw_faces eng known names fr faces))"
proof (induction faces arbitrary: fr)
  case Nil
  then show ?case by simp
next
  case (Cons face faces)
  show ?case
  proof (cases "draw_face eng known names fr face")
    case (Pair ev r)
    have ev: "list_all is_call ev"
      using draw_face_calls [of eng known names fr face] Pair by simp
    show ?thesis
    proof (cases r)
      case (Inl e)
      with Pair ev show ?thesis by simp
    next
      case (Inr fr')
      obtain ev' r' where rest: "draw_faces eng known names fr' faces = (ev', r')"
        by (cases "draw_faces eng known names fr' faces")
      from Cons.IH [of fr'] rest have "list_all is_call ev'" by simp
      with Pair Inr rest ev show ?thesis by simp
    qed
  qed
qed


lemma process_frame_cases:
  obtains (failed) ev e where
      "process_frame eng known names c im = (ev, Inl e)" and "list_all is_call ev"
  | (wrote) ev fr faces where
      "process_frame eng known names c im =
         (ev @ [Write fr] @
            (if Suc c mod 30 = 0 then [Print (progress_line (Suc c))] else []),
          Inr (Suc c))"
      and "list_all is_call ev"
      and "snd (draw_faces eng known names \<lparr>pixels = im, drawn = []\<rparr> faces) = Inr fr"
proof (cases "face_locations eng (reverse_channels im)")
  case (Inl e)
  then have "process_frame eng known names c im = ([Call Face_locations], Inl e)"
    by (simp add: process_frame_def)
  then show ?thesis by (rule failed) simp
next
  case locs: (Inr locs)
  show ?thesis
  proof (cases "face_encodings eng (reverse_channels im) (Some locs)")
    case (Inl e)
    with locs have
      "process_frame eng known names c im = ([Call Face_locations, Call Face_encodings], Inl e)"
      by (simp add: process_frame_def)
    then show ?thesis by (rule failed) simp
  next
    case encs: (Inr encs)
    obtain ev r where
      dr: "draw_faces eng known names \<lparr>pixels = im, drawn = []\<rparr> (zip locs encs) = (ev, r)"
      by (cases "draw_faces eng known names \<lparr>pixels = im, drawn = []\<rparr> (zip locs encs)")
    have ev: "list_all is_call ev"
      using draw_faces_calls [of eng known names "\<lparr>pixels = im, drawn = []\<rparr>" "zip locs encs"] dr
      by simp
    show ?thesis
    proof (cases r)
      case (Inl e)
      with locs encs dr have
        "process_frame eng known names c im =
           ([Call Face_locations, Call Face_encodings] @ ev, Inl e)"
        by (simp add: process_frame_def)
      then show ?thesis by (rule failed) (simp add: ev)
    next
      case (Inr fr)
      with locs encs dr have
        "process_frame eng known names c im =
           (([Call Face_locations, Call Face_encodings] @ ev) @ [Write fr] @
              (if Suc c mod 30 = 0 then [Print (progress_line (Suc c))] else []),
            Inr (Suc c))"
        by (simp add: process_frame_def progress_line_def)
      then show ?thesis
      proof (rule wrote)
        show "list_all is_call ([Call Face_locations, Call Face_encodings] @ ev)"
          by (simp add: ev)
        show "snd (draw_faces eng known names \<lparr>pixels = im, drawn = []\<rparr> (zip locs encs)) = Inr fr"
          by (simp add: dr Inr)
      qed
    qed
  qed
qed

section \<open>The frame counter and the progress lines\<close>

lemma upt_filter_step:
  "filter P [Suc c..<Suc c + Suc m] = (if P (Suc c) then [Suc c] else []) @ filter P [Suc (Suc c)..<Suc (Suc c) + m]"
proof -
  have "[Suc c..<Suc c + Suc m] = Suc c # [Suc (Suc c)..<Suc c + Suc m]"
    by (rule upt_conv_Cons) simp
  moreover have "Suc c + Suc m = Suc (Suc c) + m"
    by simp
  ultimately have "[Suc c..<Suc c + Suc m] = Suc c # [Suc (Suc c)..<Suc (Suc c) + m]"
    by (simp only:)
  then show ?thesis
    by (simp only: filter.simps append.simps split: if_splits) simp
qed

lemma main_loop_printed:
  "printed (fst (main_loop eng known names c ims)) =
     map progress_line
       (filter (\<lambda>k. k mod 30 = 0)
          [Suc c..<Suc c + length (written (fst (main_loop eng known names c ims)))])"
proof (induction ims arbitrary: c)
  case Nil
  then show ?case by simp
next
  case (Cons im ims)
  show ?case
  proof (cases rule: process_frame_cases [of eng known names c im])
    case (failed ev e)
    then show ?thesis by (simp add: calls_silent)
  next
    case (wrote ev fr faces)
    obtain ev' r where rest: "main_loop eng known names (Suc c) ims = (ev', r)"
      by (cases "main_loop eng known names (Suc c) ims")
    from Cons.IH [of "Suc c"] rest have ih:
      "printed ev' = map progress_line (filter (\<lambda>k. k mod 30 = 0)
          [Suc (Suc c)..<Suc (Suc c) + length (written ev')])"
      by simp
    have w: "written (fst (main_loop eng known names c (im # ims))) = fr # written ev'"
      using wrote rest by (simp add: written_append calls_silent)
    have p: "printed (fst (main_loop eng known names c (im # ims))) =
               (if Suc c mod 30 = 0 then [progress_line (Suc c)] else []) @ printed ev'"
      using wrote rest by (simp add: printed_append calls_silent)
    have len: "length (fr # written ev') = Suc (length (written ev'))"
      by simp
    show ?thesis
      unfolding w p ih len upt_filter_step
      by (simp only: map_append if_distrib [of "map progress_line"] list.map)
  qed
qed

lemma main_loop_count:
  "length (written (fst (main_loop eng known names c ims))) \<le> length ims \<and>
   (\<forall>n. snd (main_loop eng known names c ims) = Inr n \<longrightarrow>
      n = c + length ims \<and>
      length (written (fst (main_loop eng known names c ims))) = length ims)"
proof (induction ims arbitrary: c)
  case Nil
  then show ?case by simp
next
  case (Cons im ims)
  show ?case
  proof (cases rule: process_frame_cases [of eng known names c im])
    case (failed ev e)
    then show ?thesis by (simp add: calls_silent)
  next
    case (wrote ev fr faces)
    obtain ev' r where rest: "main_loop eng known names (Suc c) ims = (ev', r)"
      by (cases "main_loop eng known names (Suc c) ims")
    from Cons.IH [of "Suc c"] rest have ih:
      "length (written ev') \<le> length ims \<and>
       (\<forall>n. r = Inr n \<longrightarrow> n = Suc c + length ims \<and> length (written ev') = length ims)"
      by simp
    have w: "written (fst (main_loop eng known names c (im # ims))) = fr # written ev'"
      using wrote rest by (simp add: written_append calls_silent)
    have s: "snd (main_loop eng known names c (im # ims)) = r"
      using wrote rest by simp
    show ?thesis
      unfolding w s using ih by simp
  qed
qed


lemma process_frame_printed:
  assumes "process_frame eng known names c im = (ev, Inr n)"
  shows "n = Suc c" and "printed ev = (if Suc c mod 30 = 0 then [progress_line (Suc c)] else [])"
    and "length (written ev) = 1"
proof -
  have "n = Suc c \<and> printed ev = (if Suc c mod 30 = 0 then [progress_line (Suc c)] else [])
          \<and> length (written ev) = 1"
  proof (cases rule: process_frame_cases [of eng known names c im])
    case (failed ev' e)
    with assms show ?thesis by simp
  next
    case (wrote ev' fr faces)
    with assms show ?thesis
      by (auto simp add: printed_append written_append calls_silent)
  qed
  then show "n = Suc c"
    and "printed ev = (if Suc c mod 30 = 0 then [progress_line (Suc c)] else [])"
    and "length (written ev) = 1"
    by simp_all
qed

lemma no_multiple_below_thirty:
  assumes "m < 30"
  shows "filter (\<lambda>k. k mod 30 = 0) [Suc 0..<Suc 0 + m] = []"
proof -
  have "\<forall>k \<in> set [Suc 0..<Suc 0 + m]. k mod 30 \<noteq> 0"
    using assms by auto
  then show ?thesis
    by (simp only: filter_False)
qed

text \<open>
  C8. Each frame that is read and processed raises the frame counter by one, and the
  progress line for the new counter value is printed exactly when that value is a multiple
  of 30. Over the whole loop the lines printed are the progress lines of the multiples of
  30 among the counter values reached, in order; when the loop ends normally the counter
  has grown by the number of frames. Starting from 0, a video of fewer than 30 frames
  prints no progress line.
\<close>

theorem frame_counter_and_progress:
  "(\<forall>ev n. process_frame eng known names c im = (ev, Inr n) \<longrightarrow>
      n = c + 1 \<and>
      printed ev = (if (c + 1) mod 30 = 0 then [progress_line (c + 1)] else [])) \<and>
   (\<forall>n. snd (main_loop eng known names c ims) = Inr n \<longrightarrow>
      n = c + length ims \<and>
      length (written (fst (main_loop eng known names c ims))) = length ims) \<and>
   printed (fst (main_loop eng known names c ims)) =
     map progress_line
       (filter (\<lambda>k. k mod 30 = 0)
          [c + 1..<c + 1 + length (written (fst (main_loop eng known names c ims)))]) \<and>
   (length ims < 30 \<longrightarrow> printed (fst (main_loop eng known names 0 ims)) = [])"
proof (intro conjI allI impI)
  fix ev n
  assume "process_frame eng known names c im = (ev, Inr n)"
  then show "n = c + 1"
    and "printed ev = (if (c + 1) mod 30 = 0 then [progress_line (c + 1)] else [])"
    using process_frame_printed [of eng known names c im ev n] by simp_all
next
  fix n
  assume "snd (main_loop eng known names c ims) = Inr n"
  then show "n = c + length ims"
    and "length (written (fst (main_loop eng known names c ims))) = length ims"
    using main_loop_count [of eng known names c ims] by simp_all
next
  show "printed (fst (main_loop eng known names c ims)) =
     map progress_line
       (filter (\<lambda>k. k mod 30 = 0)
          [c + 1..<c + 1 + length (written (fst (main_loop eng known names c ims)))])"
    using main_loop_printed [of eng known names c ims] by simp
next
  assume short: "length ims < 30"
  have "length (written (fst (main_loop eng known names 0 ims))) < 30"
    using main_loop_count [of eng known names 0 ims] short by simp
  then have "filter (\<lambda>k. k mod 30 = 0)
          [Suc 0..<Suc 0 + length (written (fst (main_loop eng known names 0 ims)))] = []"
    by (rule no_multiple_below_thirty)
  then show "printed (fst (main_loop eng known names 0 ims)) = []"
    by (simp only: main_loop_printed [of eng known names 0 ims] list.map)
qed

lemma example_loop:
  "main_loop example_engine [10] [''Alice''] 28 [frame_one, frame_two, frame_one] =
     ([Call Face_locations, Call Face_encodings, Call Compare_faces, Call Face_distance,
       Write \<lparr>pixels = frame_one,
              drawn = [Rectangle (20, 10) (90, 80) (0, 0, 255) 2,
                       Rectangle (20, 45) (90, 80) (0, 0, 255) (- 1),
                       PutText ''Alice'' (26, 74) 2 1 (255, 255, 255) 1]\<rparr>,
       Call Face_locations, Call Face_encodings,
       Write \<lparr>pixels = frame_two, drawn = []\<rparr>,
       Print ''Processed 30 frames...'',
       Call Face_locations, Call Face_encodings, Call Compare_faces, Call Face_distance,
       Write \<lparr>pixels = frame_one,
              drawn = [Rectangle (20, 10) (90, 80) (0, 0, 255) 2,
                       Rectangle (20, 45) (90, 80) (0, 0, 255) (- 1),
                       PutText ''Alice'' (26, 74) 2 1 (255, 255, 255) 1]\<rparr>],
      Inr 31)"
  by code_simp


theorem frame_counter_and_progress_witness:
  "printed (fst (main_loop example_engine [10] [''Alice''] 28 [frame_one, frame_two, frame_one]))
     = [''Processed 30 frames...''] \<and>
   snd (main_loop example_engine [10] [''Alice''] 28 [frame_one, frame_two, frame_one]) = Inr 31 \<and>
   length [frame_one, frame_two, frame_one] < 30 \<and>
   printed (fst (main_loop example_engine [10] [''Alice''] 0 [frame_one, frame_two, frame_one]))
     = []"
proof -
  let ?ims = "[frame_one, frame_two, frame_one]"
  note run = example_loop
  have w: "length (written (fst (main_loop example_engine [10] [''Alice''] 28 ?ims))) = 3"
    unfolding run by simp
  have f: "filter (\<lambda>k. k mod 30 = 0) [28 + 1..<28 + 1 + 3] = [30::nat]"
    by code_simp
  have l: "progress_line 30 = ''Processed 30 frames...''"
    by code_simp
  have short: "length ?ims < 30"
    by simp
  from frame_counter_and_progress [of example_engine "[10]" "[''Alice'']" 28 frame_two ?ims]
  have p: "printed (fst (main_loop example_engine [10] [''Alice''] 28 ?ims)) =
             map progress_line (filter (\<lambda>k. k mod 30 = 0)
               [28 + 1..<28 + 1 + length (written (fst (main_loop example_engine [10] [''Alice''] 28 ?ims)))])"
    and q: "length ?ims < 30 \<longrightarrow>
            printed (fst (main_loop example_engine [10] [''Alice''] 0 ?ims)) = []"
    by blast+
  from p have "printed (fst (main_loop example_engine [10] [''Alice''] 28 ?ims))
                 = [''Processed 30 frames...'']"
    unfolding w f by (simp only: list.map l)
  moreover have "snd (main_loop example_engine [10] [''Alice''] 28 ?ims) = Inr 31"
    unfolding run by simp
  moreover from q short
  have "printed (fst (main_loop example_engine [10] [''Alice''] 0 ?ims)) = []"
    by (rule mp)
  ultimately show ?thesis
    using short by (simp only: simp_thms)
qed

section \<open>The output sink\<close>

lemma main_loop_sinks: "sinks (fst (main_loop eng known names c ims)) = []"
proof (induction ims arbitrary: c)
  case Nil
  then show ?case by simp
next
  case (Cons im ims)
  show ?case
  proof (cases rule: process_frame_cases [of eng known names c im])
    case (failed ev e)
    then show ?thesis by (simp add: calls_silent)
  next
    case (wrote ev fr faces)
    obtain ev' r where rest: "main_loop eng known names (Suc c) ims = (ev', r)"
      by (cases "main_loop eng known names (Suc c) ims")
    from Cons.IH [of "Suc c"] rest have "sinks ev' = []" by simp
    with wrote rest show ?thesis
      by (simp add: sinks_append calls_silent)
  qed
qed

lemma py_int_integral:
  assumes "x \<in> \<int>"
  shows "of_int (py_int x) = x"
  using assms by (auto simp add: py_int_def elim!: Ints_cases)

lemma py_int_truncates:
  "\<bar>of_int (py_int x)\<bar> \<le> \<bar>x\<bar> \<and> \<bar>x - of_int (py_int x)\<bar> < 1"
  by (simp add: py_int_def) linarith

lemma fourcc_MJPG: "VideoWriter_fourcc CHR ''M'' CHR ''J'' CHR ''P'' CHR ''G'' = 1196444237"
  by (simp add: VideoWriter_fourcc_def)

text \<open>
  C7. When the input exists and opens and the output sink does not open, the Driver
  prints the error line, releases the input source as its last action and returns: no
  engine call is made and no frame is written.
\<close>

theorem sink_failure_releases_source:
  assumes "path_exists w video_path"
    and "capture_isOpened w video_path"
    and "\<not> writer_isOpened w ''output.avi''
             (VideoWriter_fourcc CHR ''M'' CHR ''J'' CHR ''P'' CHR ''G'')
             (py_int (capture_get w video_path CAP_PROP_FPS))
             (py_int (capture_get w video_path CAP_PROP_FRAME_WIDTH),
              py_int (capture_get w video_path CAP_PROP_FRAME_HEIGHT))"
  shows "process_video w eng video_path known names =
           ([VideoCapture video_path,
             VideoWriter ''output.avi''
               (VideoWriter_fourcc CHR ''M'' CHR ''J'' CHR ''P'' CHR ''G'')
               (py_int (capture_get w video_path CAP_PROP_FPS))
               (py_int (capture_get w video_path CAP_PROP_FRAME_WIDTH),
                py_int (capture_get w video_path CAP_PROP_FRAME_HEIGHT)),
             Print (''Error: Could not create output video file '' @ quote @ ''output.avi''
                      @ quote @ ''. Ensure you have the necessary codecs.''),
             Capture_release],
            None) \<and>
         written (fst (process_video w eng video_path known names)) = [] \<and>
         \<not> list_ex is_call (fst (process_video w eng video_path known names))"
  using assms by (simp add: process_video_def Let_def)

theorem sink_failure_releases_source_witness:
  "process_video no_codec_world example_engine ''input_video.mp4'' [10] [''Alice''] =
     ([VideoCapture ''input_video.mp4'',
       VideoWriter ''output.avi'' 1196444237 29 (640, 480),
       Print (''Error: Could not create output video file '' @ quote @ ''output.avi''
                @ quote @ ''. Ensure you have the necessary codecs.''),
       Capture_release],
      None)"
proof -
  have g: "py_int (capture_get no_codec_world ''input_video.mp4'' CAP_PROP_FPS) = 29"
    "py_int (capture_get no_codec_world ''input_video.mp4'' CAP_PROP_FRAME_WIDTH) = 640"
    "py_int (capture_get no_codec_world ''input_video.mp4'' CAP_PROP_FRAME_HEIGHT) = 480"
    by code_simp+
  have "path_exists no_codec_world ''input_video.mp4''"
    and "capture_isOpened no_codec_world ''input_video.mp4''"
    and "\<not> writer_isOpened no_codec_world ''output.avi''
             (VideoWriter_fourcc CHR ''M'' CHR ''J'' CHR ''P'' CHR ''G'')
             (py_int (capture_get no_codec_world ''input_video.mp4'' CAP_PROP_FPS))
             (py_int (capture_get no_codec_world ''input_video.mp4'' CAP_PROP_FRAME_WIDTH),
              py_int (capture_get no_codec_world ''input_video.mp4'' CAP_PROP_FRAME_HEIGHT))"
    by (simp_all add: no_codec_world_def example_world_def)
  from sink_failure_releases_source [OF this, of example_engine "[10]" "[''Alice'']"]
  show ?thesis
    unfolding g fourcc_MJPG by simp
qed

text \<open>
  What the Driver passes to the writer, for every input video that exists and opens:
  exactly one sink is opened, under the relative file name \<^verbatim>\<open>output.avi\<close> and the code
  1196444237 of \<^verbatim>\<open>MJPG\<close>, with the result of \<^verbatim>\<open>int()\<close> on the input's width, height and
  frame rate. That result equals the input's value only when the value is integral, as on
  the video of 25 frames per second.
\<close>

lemma sink_arguments:
  assumes "path_exists w video_path"
    and "capture_isOpened w video_path"
  shows "sinks (fst (process_video w eng video_path known names)) =
           [(''output.avi'',
             VideoWriter_fourcc CHR ''M'' CHR ''J'' CHR ''P'' CHR ''G'',
             py_int (capture_get w video_path CAP_PROP_FPS),
             (py_int (capture_get w video_path CAP_PROP_FRAME_WIDTH),
              py_int (capture_get w video_path CAP_PROP_FRAME_HEIGHT)))] \<and>
         VideoWriter_fourcc CHR ''M'' CHR ''J'' CHR ''P'' CHR ''G'' = 1196444237 \<and>
         (\<forall>prop. \<bar>capture_get w video_path prop
                    - of_int (py_int (capture_get w video_path prop))\<bar> < 1 \<and>
                 (capture_get w video_path prop \<in> \<int> \<longrightarrow>
                    of_int (py_int (capture_get w video_path prop))
                      = capture_get w video_path prop))"
proof -
  let ?opening = "[VideoCapture video_path,
                   VideoWriter ''output.avi''
                     (VideoWriter_fourcc CHR ''M'' CHR ''J'' CHR ''P'' CHR ''G'')
                     (py_int (capture_get w video_path CAP_PROP_FPS))
                     (py_int (capture_get w video_path CAP_PROP_FRAME_WIDTH),
                      py_int (capture_get w video_path CAP_PROP_FRAME_HEIGHT))]"
  obtain ev r where loop:
    "main_loop eng known names 0 (capture_frames w video_path) = (ev, r)"
    by (cases "main_loop eng known names 0 (capture_frames w video_path)")
  have quiet: "sinks ev = []"
    using main_loop_sinks [of eng known names 0 "capture_frames w video_path"] loop by simp
  have "sinks (fst (process_video w eng video_path known names)) = sinks ?opening"
    using assms loop quiet
    by (cases r) (simp_all add: process_video_def Let_def sinks_append)
  then show ?thesis
    using py_int_integral py_int_truncates fourcc_MJPG by simp
qed

lemma sink_arguments_at_integral_rate:
  "sinks (fst (process_video pal_world example_engine ''input_video.mp4'' [10] [''Alice'']))
     = [(''output.avi'', 1196444237, 25, (640, 480))] \<and>
   capture_get pal_world ''input_video.mp4'' CAP_PROP_FPS = 25 \<and>
   capture_get pal_world ''input_video.mp4'' CAP_PROP_FRAME_WIDTH = 640 \<and>
   capture_get pal_world ''input_video.mp4'' CAP_PROP_FRAME_HEIGHT = 480"
proof -
  have g: "capture_get pal_world ''input_video.mp4'' CAP_PROP_FPS = 25"
    "capture_get pal_world ''input_video.mp4'' CAP_PROP_FRAME_WIDTH = 640"
    "capture_get pal_world ''input_video.mp4'' CAP_PROP_FRAME_HEIGHT = 480"
    by (simp_all add: pal_world_def example_world_def)
  have i: "(25::rat) \<in> \<int>" "(640::rat) \<in> \<int>" "(480::rat) \<in> \<int>"
    by simp_all
  have "path_exists pal_world ''input_video.mp4''"
    and "capture_isOpened pal_world ''input_video.mp4''"
    by (simp_all add: pal_world_def example_world_def)
  from sink_arguments
         [OF this, of example_engine "[10]" "[''Alice'']"]
  have s: "sinks (fst (process_video pal_world example_engine ''input_video.mp4''
                        [10] [''Alice''])) =
             [(''output.avi'', 1196444237, py_int 25, (py_int 640, py_int 480))]"
    and t: "\<forall>prop. capture_get pal_world ''input_video.mp4'' prop \<in> \<int> \<longrightarrow>
              of_int (py_int (capture_get pal_world ''input_video.mp4'' prop))
                = capture_get pal_world ''input_video.mp4'' prop"
    unfolding g by simp_all
  from t [rule_format, of CAP_PROP_FPS] t [rule_format, of CAP_PROP_FRAME_WIDTH]
       t [rule_format, of CAP_PROP_FRAME_HEIGHT] i
  have "py_int 25 = 25" "py_int 640 = 640" "py_int 480 = 480"
    unfolding g by (simp_all only: of_int_eq_numeral_iff)
  with s g show ?thesis
    by simp
qed

text \<open>
  C2. The sink is to be opened with the input's dimensions and frame rate exactly, the
  motion-JPEG code and the fixed file name. The file name, the code and the dimensions
  are as said, the frame rate is not: the rate read from the input goes through
  \<^verbatim>\<open>int()\<close> on its way to the writer, which would take it as it is. The example video
  exists, opens and has 29.97 frames per second, and its sink is opened with 29; the same
  video at half a frame per second has its sink opened with 0.
\<close>

theorem sink_frame_rate_is_truncated:
  "path_exists example_world ''input_video.mp4'' \<and>
   capture_isOpened example_world ''input_video.mp4'' \<and>
   capture_get example_world ''input_video.mp4'' CAP_PROP_FPS = 2997 / 100 \<and>
   sinks (fst (process_video example_world example_engine ''input_video.mp4'' [10] [''Alice'']))
     = [(''output.avi'', 1196444237, 29, (640, 480))] \<and>
   (of_int 29 :: rat) \<noteq> 2997 / 100 \<and>
   capture_get timelapse_world ''input_video.mp4'' CAP_PROP_FPS = 1 / 2 \<and>
   sinks (fst (process_video timelapse_world example_engine ''input_video.mp4''
                 [10] [''Alice'']))
     = [(''output.avi'', 1196444237, 0, (640, 480))]"
proof -
  have "sinks (fst (process_video example_world example_engine ''input_video.mp4''
                      [10] [''Alice'']))
          = [(''output.avi'', 1196444237, 29, (640, 480))]"
    by code_simp
  moreover
  have "sinks (fst (process_video timelapse_world example_engine ''input_video.mp4''
                      [10] [''Alice'']))
          = [(''output.avi'', 1196444237, 0, (640, 480))]"
    by code_simp
  ultimately show ?thesis
    by (simp add: example_world_def timelapse_world_def)
qed

section \<open>The nearest reference entry\<close>

lemma first_minimum_iff:
  "first_minimum ds i \<longleftrightarrow>
     i < length ds \<and> (\<forall>j < length ds. ds ! i \<le> ds ! j) \<and> (\<forall>j < i. ds ! i < ds ! j)"
  by (auto simp add: first_minimum_def)

lemma first_minimum_unique:
  assumes "first_minimum ds i" and "first_minimum ds j"
  shows "i = j"
proof (rule ccontr)
  assume "i \<noteq> j"
  then consider "i < j" | "j < i" by linarith
  then show False
  proof cases
    case 1
    with assms have "ds ! j < ds ! i" and "ds ! i \<le> ds ! j"
      by (auto simp add: first_minimum_iff)
    then show False by simp
  next
    case 2
    with assms have "ds ! i < ds ! j" and "ds ! j \<le> ds ! i"
      by (auto simp add: first_minimum_iff)
    then show False by simp
  qed
qed

lemma argmin_from_first_minimum:
  assumes "first_minimum ys best" and "length ys = i" and "v = ys ! best"
  shows "first_minimum (ys @ xs) (argmin_from xs i best v)"
  using assms
proof (induction xs arbitrary: ys i best v)
  case Nil
  then show ?case by simp
next
  case (Cons x xs)
  from Cons.prems have best: "best < length ys"
    and least: "\<And>j. j < length ys \<Longrightarrow> v \<le> ys ! j"
    and first: "\<And>j. j < best \<Longrightarrow> v < ys ! j"
    and len: "i = length ys"
    by (simp_all add: first_minimum_iff)
  have last: "(ys @ [x]) ! i = x"
    using len by simp
  have before: "\<And>j. j < i \<Longrightarrow> (ys @ [x]) ! j = ys ! j"
    using len by (simp add: nth_append)
  show ?case
  proof (cases "x < v")
    case True
    have ext: "first_minimum (ys @ [x]) i"
      unfolding first_minimum_iff
    proof (intro conjI allI impI)
      show "i < length (ys @ [x])"
        using len by simp
    next
      fix j
      assume "j < length (ys @ [x])"
      then have "j = i \<or> j < i"
        using len by auto
      then show "(ys @ [x]) ! i \<le> (ys @ [x]) ! j"
      proof
        assume "j = i"
        then show ?thesis by simp
      next
        assume j: "j < i"
        then have "v \<le> ys ! j"
          using least len by simp
        with True j show ?thesis
          by (simp add: last before)
      qed
    next
      fix j
      assume j: "j < i"
      then have "v \<le> ys ! j"
        using least len by simp
      with True j show "(ys @ [x]) ! i < (ys @ [x]) ! j"
        by (simp add: last before)
    qed
    have "first_minimum ((ys @ [x]) @ xs) (argmin_from xs (Suc i) i x)"
      by (rule Cons.IH [OF ext]) (simp_all add: len last)
    with True show ?thesis by simp
  next
    case False
    have atbest: "(ys @ [x]) ! best = v"
      using best Cons.prems by (simp add: nth_append)
    have ext: "first_minimum (ys @ [x]) best"
      unfolding first_minimum_iff
    proof (intro conjI allI impI)
      show "best < length (ys @ [x])"
        using best by simp
    next
      fix j
      assume "j < length (ys @ [x])"
      then have "j = i \<or> j < i"
        using len by auto
      then show "(ys @ [x]) ! best \<le> (ys @ [x]) ! j"
      proof
        assume "j = i"
        with False show ?thesis
          by (simp add: atbest last)
      next
        assume j: "j < i"
        then have "v \<le> ys ! j"
          using least len by simp
        with j show ?thesis
          by (simp add: atbest before)
      qed
    next
      fix j
      assume j: "j < best"
      then have "v < ys ! j"
        by (rule first)
      moreover have "j < i"
        using j best len by simp
      ultimately show "(ys @ [x]) ! best < (ys @ [x]) ! j"
        by (simp add: atbest before)
    qed
    have "first_minimum ((ys @ [x]) @ xs) (argmin_from xs (Suc i) best v)"
      by (rule Cons.IH [OF ext]) (simp_all add: len atbest)
    with False show ?thesis by simp
  qed
qed

lemma argmin_first_minimum:
  assumes "ds \<noteq> []"
  shows "\<exists>i. argmin ds = Inr i \<and> first_minimum ds i"
proof -
  from assms obtain x rest where ds: "ds = x # rest"
    by (cases ds) auto
  have "first_minimum [x] 0"
    by (simp add: first_minimum_iff)
  from argmin_from_first_minimum [OF this, of 1 x rest]
  have "first_minimum (x # rest) (argmin_from rest 1 0 x)"
    by simp
  then show ?thesis
    by (simp add: ds argmin_def)
qed

lemma label_face_nearest:
  assumes "known \<noteq> []"
    and "compare_faces eng known fe = Inr matches"
    and "face_distance eng known fe = Inr dists"
    and "length matches = length known"
    and "length dists = length known"
    and "length names = length known"
    and "first_minimum dists i"
  shows "label_face eng known names fe =
           ([Call Compare_faces, Call Face_distance],
            Inr (if matches ! i then names ! i else ''Unknown''))"
proof -
  from assms have "dists \<noteq> []" by auto
  then obtain k where k: "argmin dists = Inr k" "first_minimum dists k"
    using argmin_first_minimum by blast
  with assms have "k = i"
    using first_minimum_unique by blast
  moreover have "i < length known"
    using assms by (simp add: first_minimum_iff)
  ultimately show ?thesis
    using assms k by (simp add: label_face_def getitem_def)
qed

text \<open>
  C1. With a non-empty Reference Set, and an engine that returns one flag and one distance
  per reference entry, there is an index of the first smallest distance, and the face is
  labelled from the entry at that index alone: with its name when its match flag is set,
  with \<^verbatim>\<open>Unknown\<close> otherwise, whatever the flags of the other entries are. That label is
  the text drawn for the face.
\<close>

theorem label_is_nearest_entry_if_flagged:
  assumes "known \<noteq> []"
    and "compare_faces eng known fe = Inr matches"
    and "face_distance eng known fe = Inr dists"
    and "length matches = length known"
    and "length dists = length known"
    and "length names = length known"
  shows "(\<exists>i. first_minimum dists i) \<and>
         (\<forall>i. first_minimum dists i \<longrightarrow>
            label_face eng known names fe =
              ([Call Compare_faces, Call Face_distance],
               Inr (if matches ! i then names ! i else ''Unknown'')) \<and>
            draw_face eng known names fr ((t, r, b, l), fe) =
              ([Call Compare_faces, Call Face_distance],
               Inr (fr\<lparr>drawn := drawn fr @
                      [Rectangle (l, t) (r, b) (0, 0, 255) 2,
                       Rectangle (l, b - 35) (r, b) (0, 0, 255) FILLED,
                       PutText (if matches ! i then names ! i else ''Unknown'')
                         (l + 6, b - 6) FONT_HERSHEY_DUPLEX 1 (255, 255, 255) 1]\<rparr>)))"
proof (intro conjI allI impI)
  from assms have "dists \<noteq> []" by auto
  then show "\<exists>i. first_minimum dists i"
    using argmin_first_minimum by blast
next
  fix i
  assume "first_minimum dists i"
  with assms show lab: "label_face eng known names fe =
      ([Call Compare_faces, Call Face_distance],
       Inr (if matches ! i then names ! i else ''Unknown''))"
    by (rule label_face_nearest)
  show "draw_face eng known names fr ((t, r, b, l), fe) =
      ([Call Compare_faces, Call Face_distance],
       Inr (fr\<lparr>drawn := drawn fr @
              [Rectangle (l, t) (r, b) (0, 0, 255) 2,
               Rectangle (l, b - 35) (r, b) (0, 0, 255) FILLED,
               PutText (if matches ! i then names ! i else ''Unknown'')
                 (l + 6, b - 6) FONT_HERSHEY_DUPLEX 1 (255, 255, 255) 1]\<rparr>))"
    by (simp add: draw_face_def lab)
qed

theorem label_is_nearest_entry_if_flagged_witness:
  "compare_faces masking_engine [10, 24, 30] 27 = Inr [True, False, True] \<and>
   face_distance masking_engine [10, 24, 30] 27 = Inr [17, 3, 3] \<and>
   first_minimum [17, 3, 3 :: int] 1 \<and>
   label_face masking_engine [10, 24, 30] [''Alice'', ''Carol'', ''Bob''] 27 =
     ([Call Compare_faces, Call Face_distance], Inr ''Unknown'') \<and>
   label_face example_engine [10, 24, 30] [''Alice'', ''Carol'', ''Bob''] 27 =
     ([Call Compare_faces, Call Face_distance], Inr ''Carol'')"
proof -
  have m: "compare_faces masking_engine [10, 24, 30] 27 = Inr [True, False, True]"
    and d: "face_distance masking_engine [10, 24, 30] 27 = Inr [17, 3, 3]"
    and m': "compare_faces example_engine [10, 24, 30] 27 = Inr [False, True, True]"
    and d': "face_distance example_engine [10, 24, 30] 27 = Inr [17, 3, 3]"
    by (simp_all add: masking_engine_def example_engine_def)
  have f: "first_minimum [17, 3, 3 :: int] 1"
    by code_simp
  have ne: "[10, 24, 30 :: int] \<noteq> []"
    by simp
  from label_is_nearest_entry_if_flagged
         [OF ne m d, of "[''Alice'', ''Carol'', ''Bob'']"] f
  have "label_face masking_engine [10, 24, 30] [''Alice'', ''Carol'', ''Bob''] 27 =
          ([Call Compare_faces, Call Face_distance], Inr ''Unknown'')"
    by simp
  moreover
  from label_is_nearest_entry_if_flagged
         [OF ne m' d', of "[''Alice'', ''Carol'', ''Bob'']"] f
  have "label_face example_engine [10, 24, 30] [''Alice'', ''Carol'', ''Bob''] 27 =
          ([Call Compare_faces, Call Face_distance], Inr ''Carol'')"
    by simp
  ultimately show ?thesis
    using m d f by simp
qed

section \<open>Labels on written frames\<close>

lemma labels_append: "labels (xs @ ys) = labels xs @ labels ys"
  by (induction xs rule: labels.induct) simp_all

lemma label_face_range:
  assumes "snd (label_face eng known names fe) = Inr name"
  shows "name = ''Unknown'' \<or> name \<in> set names"
  using assms
  by (auto simp add: label_face_def getitem_def split: if_splits sum.splits)

lemma draw_face_labels:
  assumes "snd (draw_face eng known names fr face) = Inr fr'"
  shows "\<exists>name. snd (label_face eng known names (snd face)) = Inr name \<and>
           pixels fr' = pixels fr \<and>
           labels (drawn fr') = labels (drawn fr) @ [name]"
proof -
  obtain t r b l fe where face: "face = ((t, r, b, l), fe)"
    by (cases face) auto
  obtain ev res where lab: "label_face eng known names fe = (ev, res)"
    by (cases "label_face eng known names fe")
  show ?thesis
    using assms
    by (cases res) (auto simp add: draw_face_def face lab labels_append)
qed

lemma draw_faces_labels:
  assumes "snd (draw_faces eng known names fr faces) = Inr fr'"
  shows "\<exists>new. labels (drawn fr') = labels (drawn fr) @ new \<and>
           length new = length faces \<and>
           (\<forall>i < length faces.
              snd (label_face eng known names (snd (faces ! i))) = Inr (new ! i))"
  using assms
proof (induction faces arbitrary: fr)
  case Nil
  then show ?case by simp
next
  case (Cons face faces)
  obtain ev r where one: "draw_face eng known names fr face = (ev, r)"
    by (cases "draw_face eng known names fr face")
  show ?case
  proof (cases r)
    case (Inl e)
    with one Cons.prems show ?thesis by simp
  next
    case (Inr fr1)
    obtain ev' r' where rest: "draw_faces eng known names fr1 faces = (ev', r')"
      by (cases "draw_faces eng known names fr1 faces")
    from one Inr rest Cons.prems have r': "snd (draw_faces eng known names fr1 faces) = Inr fr'"
      by simp
    from Cons.IH [OF r'] obtain new where new:
      "labels (drawn fr') = labels (drawn fr1) @ new"
      "length new = length faces"
      "\<forall>i < length faces. snd (label_face eng known names (snd (faces ! i))) = Inr (new ! i)"
      by blast
    from one Inr have "snd (draw_face eng known names fr face) = Inr fr1"
      by simp
    from draw_face_labels [OF this] obtain name where name:
      "snd (label_face eng known names (snd face)) = Inr name"
      "labels (drawn fr1) = labels (drawn fr) @ [name]"
      by blast
    have "labels (drawn fr') = labels (drawn fr) @ (name # new)"
      using new(1) name(2) by simp
    moreover have "length (name # new) = length (face # faces)"
      using new(2) by simp
    moreover have "\<forall>i < length (face # faces).
        snd (label_face eng known names (snd ((face # faces) ! i))) = Inr ((name # new) ! i)"
    proof (intro allI impI)
      fix i
      assume "i < length (face # faces)"
      then show "snd (label_face eng known names (snd ((face # faces) ! i)))
                   = Inr ((name # new) ! i)"
        using name(1) new(3) by (cases i) simp_all
    qed
    ultimately show ?thesis by blast
  qed
qed

lemma draw_faces_label_range:
  assumes "snd (draw_faces eng known names \<lparr>pixels = im, drawn = []\<rparr> faces) = Inr fr"
    and "name \<in> set (labels (drawn fr))"
  shows "name = ''Unknown'' \<or> name \<in> set names"
proof -
  from draw_faces_labels [OF assms(1)] obtain new where new:
    "labels (drawn fr) = new" "length new = length faces"
    "\<forall>i < length faces. snd (label_face eng known names (snd (faces ! i))) = Inr (new ! i)"
    by auto
  from assms(2) new obtain i where "i < length faces" "new ! i = name"
    by (auto simp add: in_set_conv_nth)
  with new(3) have "snd (label_face eng known names (snd (faces ! i))) = Inr name"
    by auto
  then show ?thesis
    by (rule label_face_range)
qed

lemma main_loop_written:
  assumes "fr \<in> set (written (fst (main_loop eng known names c ims)))"
  shows "\<exists>im faces. im \<in> set ims \<and>
           snd (draw_faces eng known names \<lparr>pixels = im, drawn = []\<rparr> faces) = Inr fr"
  using assms
proof (induction ims arbitrary: c)
  case Nil
  then show ?case by simp
next
  case (Cons im ims)
  show ?case
  proof (cases rule: process_frame_cases [of eng known names c im])
    case (failed ev e)
    with Cons.prems show ?thesis by (simp add: calls_silent)
  next
    case (wrote ev fr1 faces)
    obtain ev' r where rest: "main_loop eng known names (Suc c) ims = (ev', r)"
      by (cases "main_loop eng known names (Suc c) ims")
    have "written (fst (main_loop eng known names c (im # ims))) = fr1 # written ev'"
      using wrote rest by (simp add: written_append calls_silent)
    with Cons.prems have "fr = fr1 \<or> fr \<in> set (written ev')"
      by simp
    then show ?thesis
    proof
      assume "fr = fr1"
      with wrote(3) show ?thesis by auto
    next
      assume "fr \<in> set (written ev')"
      with rest have "fr \<in> set (written (fst (main_loop eng known names (Suc c) ims)))"
        by simp
      from Cons.IH [OF this] show ?thesis by auto
    qed
  qed
qed

lemma process_video_written:
  assumes "fr \<in> set (written (fst (process_video w eng video_path known names)))"
  shows "fr \<in> set (written (fst (main_loop eng known names 0 (capture_frames w video_path))))"
proof -
  obtain ev r where loop:
    "main_loop eng known names 0 (capture_frames w video_path) = (ev, r)"
    by (cases "main_loop eng known names 0 (capture_frames w video_path)")
  show ?thesis
    using assms loop
    by (cases r) (auto simp add: process_video_def Let_def written_append split: if_splits)
qed

text \<open>
  C10. Every label drawn on a frame that the Driver writes is \<^verbatim>\<open>Unknown\<close> or a member
  of the list of reference names; and so is every name the Annotator computes for a
  face.
\<close>

theorem drawn_labels_are_unknown_or_known:
  "(\<forall>fr \<in> set (written (fst (process_video w eng video_path known names))).
      \<forall>name \<in> set (labels (drawn fr)). name = ''Unknown'' \<or> name \<in> set names) \<and>
   (\<forall>name. snd (label_face eng known names fe) = Inr name \<longrightarrow>
      name = ''Unknown'' \<or> name \<in> set names)"
proof (intro conjI ballI allI impI)
  fix fr name
  assume "fr \<in> set (written (fst (process_video w eng video_path known names)))"
  then have "fr \<in> set (written (fst (main_loop eng known names 0 (capture_frames w video_path))))"
    by (rule process_video_written)
  then obtain im faces where
    "snd (draw_faces eng known names \<lparr>pixels = im, drawn = []\<rparr> faces) = Inr fr"
    using main_loop_written by blast
  moreover assume "name \<in> set (labels (drawn fr))"
  ultimately show "name = ''Unknown'' \<or> name \<in> set names"
    by (rule draw_faces_label_range)
next
  fix name
  assume "snd (label_face eng known names fe) = Inr name"
  then show "name = ''Unknown'' \<or> name \<in> set names"
    by (rule label_face_range)
qed

lemma example_video:
  "process_video example_world example_engine ''input_video.mp4''
     [10, 50, 30] [''Alice'', ''.jpg'', ''Bob''] =
     ([VideoCapture ''input_video.mp4'',
       VideoWriter ''output.avi'' 1196444237 29 (640, 480),
       Print ''Processing video: input_video.mp4'',
       Call Face_locations, Call Face_encodings, Call Compare_faces, Call Face_distance,
       Write \<lparr>pixels = frame_one,
              drawn = [Rectangle (20, 10) (90, 80) (0, 0, 255) 2,
                       Rectangle (20, 45) (90, 80) (0, 0, 255) (- 1),
                       PutText ''Alice'' (26, 74) 2 1 (255, 255, 255) 1]\<rparr>,
       Call Face_locations, Call Face_encodings,
       Write \<lparr>pixels = frame_two, drawn = []\<rparr>,
       Call Face_locations, Call Face_encodings, Call Compare_faces, Call Face_distance,
       Write \<lparr>pixels = frame_one,
              drawn = [Rectangle (20, 10) (90, 80) (0, 0, 255) 2,
                       Rectangle (20, 45) (90, 80) (0, 0, 255) (- 1),
                       PutText ''Alice'' (26, 74) 2 1 (255, 255, 255) 1]\<rparr>,
       Print ''Finished processing video. Output saved to output.avi'',
       Capture_release, Writer_release, DestroyAllWindows],
      None)"
  by code_simp

theorem drawn_labels_are_unknown_or_known_witness:
  "map (\<lambda>fr. labels (drawn fr))
     (written (fst (process_video example_world example_engine ''input_video.mp4''
                      [10, 50, 30] [''Alice'', ''.jpg'', ''Bob'']))) =
     [[''Alice''], [], [''Alice'']] \<and>
   (''Alice'' = ''Unknown'' \<or> ''Alice'' \<in> set [''Alice'', ''.jpg'', ''Bob''])"
proof -
  define fr where "fr = \<lparr>pixels = frame_one,
               drawn = [Rectangle (20, 10) (90, 80) (0, 0, 255) 2,
                        Rectangle (20, 45) (90, 80) (0, 0, 255) (- 1),
                        PutText ''Alice'' (26, 74) 2 1 (255, 255, 255) 1]\<rparr>"
  define run where "run = process_video example_world example_engine ''input_video.mp4''
                [10, 50, 30] [''Alice'', ''.jpg'', ''Bob'']"
  have w: "written (fst run) = [fr, \<lparr>pixels = frame_two, drawn = []\<rparr>, fr]"
    unfolding run_def example_video fr_def by simp
  have l: "labels (drawn fr) = [''Alice'']"
    unfolding fr_def by simp
  have m: "fr \<in> set (written (fst run))"
    unfolding w by simp
  have n: "''Alice'' \<in> set (labels (drawn fr))"
    unfolding l by simp
  have "\<forall>fr \<in> set (written (fst run)).
          \<forall>name \<in> set (labels (drawn fr)).
            name = ''Unknown'' \<or> name \<in> set [''Alice'', ''.jpg'', ''Bob'']"
    unfolding run_def
    by (rule conjunct1 [OF drawn_labels_are_unknown_or_known
            [of example_world example_engine "''input_video.mp4''" "[10, 50, 30]"
                "[''Alice'', ''.jpg'', ''Bob'']" 12]])
  from bspec [OF bspec [OF this m] n]
  have range: "''Alice'' = ''Unknown'' \<or> ''Alice'' \<in> set [''Alice'', ''.jpg'', ''Bob'']" .
  have "map (\<lambda>fr. labels (drawn fr)) (written (fst run)) = [[''Alice''], [], [''Alice'']]"
    unfolding w by (simp add: l)
  then show ?thesis
    unfolding run_def using range by (rule conjI)
qed

section \<open>An empty Reference Set\<close>

lemma label_face_empty: "label_face eng [] names fe = ([], Inr ''Unknown'')"
  by (simp add: label_face_def)

lemma draw_faces_empty:
  "\<exists>fr'. draw_faces eng [] names fr faces = ([], Inr fr') \<and>
          labels (drawn fr') = labels (drawn fr) @ replicate (length faces) ''Unknown''"
proof (induction faces arbitrary: fr)
  case Nil
  then show ?case by simp
next
  case (Cons face faces)
  obtain t r b l fe where face: "face = ((t, r, b, l), fe)"
    by (cases face) auto
  define fr1 where "fr1 = fr\<lparr>drawn := drawn fr @
      [Rectangle (l, t) (r, b) (0, 0, 255) 2,
       Rectangle (l, b - 35) (r, b) (0, 0, 255) FILLED,
       PutText ''Unknown'' (l + 6, b - 6) FONT_HERSHEY_DUPLEX 1 (255, 255, 255) 1]\<rparr>"
  have one: "draw_face eng [] names fr face = ([], Inr fr1)"
    by (simp add: draw_face_def face label_face_empty fr1_def)
  have l1: "labels (drawn fr1) = labels (drawn fr) @ [''Unknown'']"
    by (simp add: fr1_def labels_append)
  from Cons.IH [of fr1] obtain fr' where fr':
    "draw_faces eng [] names fr1 faces = ([], Inr fr')"
    "labels (drawn fr') = labels (drawn fr1) @ replicate (length faces) ''Unknown''"
    by blast
  have "draw_faces eng [] names fr (face # faces) = ([], Inr fr')"
    using one fr'(1) by simp
  moreover have "labels (drawn fr') =
      labels (drawn fr) @ replicate (length (face # faces)) ''Unknown''"
    using fr'(2) l1 by simp
  ultimately show ?case by blast
qed

lemma process_frame_empty:
  "Call Compare_faces \<notin> set (fst (process_frame eng [] names c im)) \<and>
   Call Face_distance \<notin> set (fst (process_frame eng [] names c im))"
proof (cases "face_locations eng (reverse_channels im)")
  case (Inl e)
  then show ?thesis by (simp add: process_frame_def)
next
  case locs: (Inr locs)
  show ?thesis
  proof (cases "face_encodings eng (reverse_channels im) (Some locs)")
    case (Inl e)
    with locs show ?thesis by (simp add: process_frame_def)
  next
    case (Inr encs)
    from draw_faces_empty [of eng names "\<lparr>pixels = im, drawn = []\<rparr>" "zip locs encs"]
    obtain fr where "draw_faces eng [] names \<lparr>pixels = im, drawn = []\<rparr> (zip locs encs)
                       = ([], Inr fr)"
      by blast
    with locs Inr show ?thesis by (simp add: process_frame_def)
  qed
qed

lemma main_loop_empty:
  "Call Compare_faces \<notin> set (fst (main_loop eng [] names c ims)) \<and>
   Call Face_distance \<notin> set (fst (main_loop eng [] names c ims))"
proof (induction ims arbitrary: c)
  case Nil
  then show ?case by simp
next
  case (Cons im ims)
  obtain ev r where one: "process_frame eng [] names c im = (ev, r)"
    by (cases "process_frame eng [] names c im")
  with process_frame_empty [of eng names c im]
  have ev: "Call Compare_faces \<notin> set ev \<and> Call Face_distance \<notin> set ev"
    by simp
  show ?case
  proof (cases r)
    case (Inl e)
    with one ev show ?thesis by simp
  next
    case (Inr c')
    obtain ev' r' where rest: "main_loop eng [] names c' ims = (ev', r')"
      by (cases "main_loop eng [] names c' ims")
    with Cons.IH [of c']
    have "Call Compare_faces \<notin> set ev' \<and> Call Face_distance \<notin> set ev'"
      by simp
    with one Inr rest ev show ?thesis by simp
  qed
qed

lemma process_video_empty:
  "Call Compare_faces \<notin> set (fst (process_video w eng video_path [] names)) \<and>
   Call Face_distance \<notin> set (fst (process_video w eng video_path [] names))"
proof -
  obtain ev r where loop: "main_loop eng [] names 0 (capture_frames w video_path) = (ev, r)"
    by (cases "main_loop eng [] names 0 (capture_frames w video_path)")
  with main_loop_empty [of eng names 0 "capture_frames w video_path"]
  have "Call Compare_faces \<notin> set ev \<and> Call Face_distance \<notin> set ev"
    by simp
  with loop show ?thesis
    by (cases r) (simp_all add: process_video_def Let_def)
qed

text \<open>
  C6. With an empty Reference Set the Driver never calls the engine's comparison or
  distance function, on any video; the name computed for a face is \<^verbatim>\<open>Unknown\<close> with no
  engine call; drawing any list of detected faces succeeds with no engine call and adds
  one label \<^verbatim>\<open>Unknown\<close> per face; and every label on every written frame is
  \<^verbatim>\<open>Unknown\<close>.
\<close>

theorem empty_reference_set_labels_unknown:
  "Call Compare_faces \<notin> set (fst (process_video w eng video_path [] names)) \<and>
   Call Face_distance \<notin> set (fst (process_video w eng video_path [] names)) \<and>
   label_face eng [] names fe = ([], Inr ''Unknown'') \<and>
   (\<exists>fr'. draw_faces eng [] names fr faces = ([], Inr fr') \<and>
           labels (drawn fr') = labels (drawn fr) @ replicate (length faces) ''Unknown'') \<and>
   (\<forall>fr \<in> set (written (fst (process_video w eng video_path [] names))).
      \<forall>name \<in> set (labels (drawn fr)). name = ''Unknown'')"
proof (intro conjI ballI)
  show "Call Compare_faces \<notin> set (fst (process_video w eng video_path [] names))"
    and "Call Face_distance \<notin> set (fst (process_video w eng video_path [] names))"
    using process_video_empty [of w eng video_path names] by simp_all
next
  show "label_face eng [] names fe = ([], Inr ''Unknown'')"
    by (rule label_face_empty)
next
  show "\<exists>fr'. draw_faces eng [] names fr faces = ([], Inr fr') \<and>
           labels (drawn fr') = labels (drawn fr) @ replicate (length faces) ''Unknown''"
    by (rule draw_faces_empty)
next
  fix fr0 name
  assume "fr0 \<in> set (written (fst (process_video w eng video_path [] names)))"
  then have "fr0 \<in> set (written (fst (main_loop eng [] names 0 (capture_frames w video_path))))"
    by (rule process_video_written)
  then obtain im fs where
    "snd (draw_faces eng [] names \<lparr>pixels = im, drawn = []\<rparr> fs) = Inr fr0"
    using main_loop_written by blast
  with draw_faces_empty [of eng names "\<lparr>pixels = im, drawn = []\<rparr>" fs]
  have "labels (drawn fr0) = replicate (length fs) ''Unknown''"
    by auto
  moreover assume "name \<in> set (labels (drawn fr0))"
  ultimately show "name = ''Unknown''"
    by simp
qed

lemma example_video_no_references:
  "process_video example_world example_engine ''input_video.mp4'' [] [] =
     ([VideoCapture ''input_video.mp4'',
       VideoWriter ''output.avi'' 1196444237 29 (640, 480),
       Print ''Processing video: input_video.mp4'',
       Call Face_locations, Call Face_encodings,
       Write \<lparr>pixels = frame_one,
              drawn = [Rectangle (20, 10) (90, 80) (0, 0, 255) 2,
                       Rectangle (20, 45) (90, 80) (0, 0, 255) (- 1),
                       PutText ''Unknown'' (26, 74) 2 1 (255, 255, 255) 1]\<rparr>,
       Call Face_locations, Call Face_encodings,
       Write \<lparr>pixels = frame_two, drawn = []\<rparr>,
       Call Face_locations, Call Face_encodings,
       Write \<lparr>pixels = frame_one,
              drawn = [Rectangle (20, 10) (90, 80) (0, 0, 255) 2,
                       Rectangle (20, 45) (90, 80) (0, 0, 255) (- 1),
                       PutText ''Unknown'' (26, 74) 2 1 (255, 255, 255) 1]\<rparr>,
       Print ''Finished processing video. Output saved to output.avi'',
       Capture_release, Writer_release, DestroyAllWindows],
      None)"
  by code_simp

theorem empty_reference_set_labels_unknown_witness:
  "map (\<lambda>fr. labels (drawn fr))
     (written (fst (process_video example_world example_engine ''input_video.mp4'' [] []))) =
     [[''Unknown''], [], [''Unknown'']] \<and>
   Call Compare_faces
     \<notin> set (fst (process_video example_world example_engine ''input_video.mp4'' [] [])) \<and>
   Call Face_distance
     \<notin> set (fst (process_video example_world example_engine ''input_video.mp4'' [] []))"
proof -
  define run where
    "run = process_video example_world example_engine ''input_video.mp4'' [] ([] :: string list)"
  note inst = empty_reference_set_labels_unknown
         [of example_world example_engine "''input_video.mp4''" "[]" 12
             "\<lparr>pixels = frame_one, drawn = []\<rparr>" "[]"]
  have a: "Call Compare_faces \<notin> set (fst run)"
    unfolding run_def by (rule conjunct1 [OF inst])
  have b: "Call Face_distance \<notin> set (fst run)"
    unfolding run_def by (rule conjunct1 [OF conjunct2 [OF inst]])
  have "map (\<lambda>fr. labels (drawn fr)) (written (fst run)) = [[''Unknown''], [], [''Unknown'']]"
    unfolding run_def example_video_no_references by simp
  with a b show ?thesis
    unfolding run_def by (intro conjI)
qed

section \<open>Names from file names\<close>

lemma rfind_absent:
  assumes "c \<notin> set s"
  shows "rfind s c = - 1"
  using assms by (induction s) (auto simp add: Let_def)

lemma rfind_last:
  assumes "c \<notin> set ys"
  shows "rfind (xs @ c # ys) c = int (length xs)"
proof (induction xs)
  case Nil
  from assms show ?case by (simp add: Let_def rfind_absent)
next
  case (Cons x xs)
  then show ?case by (simp add: Let_def)
qed

lemma skip_dots_only_splits_at_dot:
  assumes "skip_dots p i d = Some r"
  shows "r = (take (nat d) p, drop (nat d) p)"
  using assms
proof (induction p i d rule: skip_dots.induct)
  case (1 p i d)
  then show ?case
    by (subst (asm) (2) skip_dots.simps) (simp split: if_splits)
qed

lemma splitext_concat: "fst (splitext p) @ snd (splitext p) = p"
proof (cases "skip_dots p (rfind p CHR ''/'' + 1) (rfind p CHR ''.'')")
  case None
  then show ?thesis by (simp add: splitext_def Let_def)
next
  case (Some r)
  from skip_dots_only_splits_at_dot [OF this] Some show ?thesis
    by (simp add: splitext_def Let_def)
qed

lemma skip_dots_all_dots:
  assumes "0 \<le> i" and "d \<le> int (length p)"
    and "\<forall>k. i \<le> k \<and> k < d \<longrightarrow> p ! nat k = CHR ''.''"
  shows "skip_dots p i d = None"
  using assms
proof (induction p i d rule: skip_dots.induct)
  case (1 p i d)
  show ?case
  proof (cases "i < d")
    case False
    then show ?thesis by (subst skip_dots.simps) simp
  next
    case True
    with "1.prems" have "nat i < length p" and "p ! nat i = CHR ''.''"
      by auto
    then have here: "take 1 (drop (nat i) p) = ''.''"
      by (simp add: take_Suc_conv_app_nth)
    have "skip_dots p (i + 1) d = None"
      using "1.IH" [OF True] here "1.prems" by auto
    with True here show ?thesis
      by (subst skip_dots.simps) simp
  qed
qed

lemma skip_dots_finds_other:
  assumes "0 \<le> i" and "d \<le> int (length p)"
    and "\<exists>k. i \<le> k \<and> k < d \<and> p ! nat k \<noteq> CHR ''.''"
  shows "skip_dots p i d = Some (take (nat d) p, drop (nat d) p)"
  using assms
proof (induction p i d rule: skip_dots.induct)
  case (1 p i d)
  from "1.prems" obtain k where k: "i \<le> k" "k < d" "p ! nat k \<noteq> CHR ''.''"
    by blast
  then have lt: "i < d" by simp
  with "1.prems" have inside: "nat i < length p" by auto
  then have here: "take 1 (drop (nat i) p) = [p ! nat i]"
    by (simp add: take_Suc_conv_app_nth)
  show ?case
  proof (cases "p ! nat i = CHR ''.''")
    case False
    with lt here show ?thesis
      by (subst skip_dots.simps) simp
  next
    case True
    with k have "k \<noteq> i" by auto
    with k have "i + 1 \<le> k" by simp
    with k have ex: "\<exists>k. i + 1 \<le> k \<and> k < d \<and> p ! nat k \<noteq> CHR ''.''"
      by blast
    have "skip_dots p (i + 1) d = Some (take (nat d) p, drop (nat d) p)"
      using "1.IH" [OF lt] True here "1.prems" ex by auto
    with lt True here show ?thesis
      by (subst skip_dots.simps) simp
  qed
qed

lemma splitext_stem:
  assumes "CHR ''/'' \<notin> set stem" and "CHR ''/'' \<notin> set rest" and "CHR ''.'' \<notin> set rest"
  shows "splitext (stem @ CHR ''.'' # rest) =
           (if \<exists>c \<in> set stem. c \<noteq> CHR ''.'' then (stem, CHR ''.'' # rest)
            else (stem @ CHR ''.'' # rest, []))"
proof -
  define p where "p = stem @ CHR ''.'' # rest"
  define n where "n = int (length stem)"
  have "CHR ''/'' \<notin> set p"
    using assms by (simp add: p_def)
  then have sep: "rfind p CHR ''/'' = - 1"
    by (rule rfind_absent)
  have dot: "rfind p CHR ''.'' = n"
    unfolding p_def n_def using assms(3) by (rule rfind_last)
  have le: "n \<le> int (length p)"
    by (simp add: p_def n_def)
  have tk: "take (nat n) p = stem" and dr: "drop (nat n) p = CHR ''.'' # rest"
    by (simp_all add: p_def n_def)
  have at: "\<And>k. k < length stem \<Longrightarrow> p ! k = stem ! k"
    by (simp add: p_def nth_append)
  have unfold: "splitext p =
      (case skip_dots p 0 n of Some r \<Rightarrow> r | None \<Rightarrow> (p, []))"
    by (simp add: splitext_def sep dot n_def)
  show ?thesis
  proof (cases "\<exists>c \<in> set stem. c \<noteq> CHR ''.''")
    case True
    then obtain k where k: "k < length stem" "stem ! k \<noteq> CHR ''.''"
      by (auto simp add: in_set_conv_nth)
    have "0 \<le> int k \<and> int k < n \<and> p ! nat (int k) \<noteq> CHR ''.''"
      using k by (simp add: n_def at)
    then have "\<exists>j. 0 \<le> j \<and> j < n \<and> p ! nat j \<noteq> CHR ''.''"
      by (rule exI)
    then have "skip_dots p 0 n = Some (take (nat n) p, drop (nat n) p)"
      by (rule skip_dots_finds_other [OF order_refl le])
    then have "splitext p = (stem, CHR ''.'' # rest)"
      by (simp only: unfold tk dr option.case)
    with True show ?thesis
      by (simp only: p_def if_True)
  next
    case False
    have "\<forall>j. 0 \<le> j \<and> j < n \<longrightarrow> p ! nat j = CHR ''.''"
    proof (intro allI impI)
      fix j :: int
      assume j: "0 \<le> j \<and> j < n"
      then have "nat j < length stem"
        unfolding n_def by linarith
      then have "p ! nat j = stem ! nat j" and "stem ! nat j \<in> set stem"
        by (simp_all add: at)
      with False show "p ! nat j = CHR ''.''"
        by simp
    qed
    then have "skip_dots p 0 n = None"
      by (rule skip_dots_all_dots [OF order_refl le])
    then have "splitext p = (p, [])"
      by (simp only: unfold option.case)
    with False show ?thesis
      by (simp only: p_def if_False)
  qed
qed

lemma lower_char_dot [simp]: "lower_char CHR ''.'' = CHR ''.''"
  by code_simp

lemma lower_char_eq_dot:
  assumes "lower_char c = CHR ''.''"
  shows "c = CHR ''.''"
proof (cases "65 \<le> (of_char c :: nat) \<and> (of_char c :: nat) \<le> 90")
  case False
  with assms show ?thesis by (simp add: lower_char_def)
next
  case True
  with assms have "char_of ((of_char c :: nat) + 32) = CHR ''.''"
    by (simp add: lower_char_def)
  then have "(of_char (char_of ((of_char c :: nat) + 32)) :: nat) = of_char CHR ''.''"
    by (simp only:)
  with True show ?thesis by simp
qed

lemma lower_ext_shape:
  assumes "lower ext \<in> set [''.jpg'', ''.jpeg'', ''.png'']"
  shows "\<exists>rest. ext = CHR ''.'' # rest \<and> CHR ''.'' \<notin> set rest"
proof -
  from assms obtain c cs where ext: "ext = c # cs" and c: "lower_char c = CHR ''.''"
    and cs: "map lower_char cs \<in> set [''jpg'', ''jpeg'', ''png'']"
    by (auto simp add: lower_def map_eq_Cons_conv)
  have "CHR ''.'' \<notin> set cs"
  proof
    assume "CHR ''.'' \<in> set cs"
    then have "lower_char CHR ''.'' \<in> set (map lower_char cs)"
      by (simp only: set_map) (rule imageI)
    with cs show False by auto
  qed
  with ext lower_char_eq_dot [OF c] show ?thesis by simp
qed

lemma endswith_iff: "endswith s suf \<longleftrightarrow> (\<exists>pre. s = pre @ suf)"
proof
  assume "endswith s suf"
  then have "s = take (length s - length suf) s @ suf"
    by (metis append_take_drop_id endswith_def)
  then show "\<exists>pre. s = pre @ suf" ..
next
  assume "\<exists>pre. s = pre @ suf"
  then show "endswith s suf"
    by (auto simp add: endswith_def)
qed

lemma eligible_decomposition:
  assumes "eligible filename"
  shows "\<exists>stem ext. filename = stem @ ext \<and> lower ext \<in> set [''.jpg'', ''.jpeg'', ''.png'']"
proof -
  from assms obtain e where e: "e \<in> set [''.jpg'', ''.jpeg'', ''.png'']"
    and "endswith (lower filename) e"
    by (auto simp add: eligible_def endswith_any_def list_ex_iff)
  then have "drop (length filename - length e) (lower filename) = e"
    by (simp add: endswith_def lower_def)
  then have "lower (drop (length filename - length e) filename) = e"
    by (simp add: lower_def drop_map)
  with e have "filename = take (length filename - length e) filename
                 @ drop (length filename - length e) filename \<and>
               lower (drop (length filename - length e) filename)
                 \<in> set [''.jpg'', ''.jpeg'', ''.png'']"
    by simp
  then show ?thesis by blast
qed

lemma strip_extension_stem:
  assumes "lower ext \<in> set [''.jpg'', ''.jpeg'', ''.png'']"
  shows "strip_extension (stem @ ext) = stem"
proof -
  let ?s = "lower (stem @ ext)"
  have s: "?s = lower stem @ lower ext"
    by (simp add: lower_def)
  have len: "length (lower ext) = length ext"
    by (simp add: lower_def)
  from assms consider "lower ext = ''.jpg''" | "lower ext = ''.jpeg''" | "lower ext = ''.png''"
    by auto
  then show ?thesis
  proof cases
    case 1
    then have "endswith ?s ''.jpg''"
      unfolding s endswith_iff by blast
    moreover from 1 len have "length ext = 4" by simp
    ultimately show ?thesis
      by (simp add: strip_extension_def)
  next
    case 2
    have no: "\<not> endswith ?s ''.jpg''"
    proof
      assume "endswith ?s ''.jpg''"
      then obtain pre where "lower stem @ ''.jpeg'' = pre @ ''.jpg''"
        unfolding s 2 endswith_iff by blast
      then have "rev (lower stem @ ''.jpeg'') = rev (pre @ ''.jpg'')"
        by (simp only:)
      then show False by simp
    qed
    have "endswith ?s ''.jpeg''"
      unfolding s endswith_iff using 2 by blast
    moreover from 2 len have "length ext = 5" by simp
    ultimately show ?thesis
      using no by (simp add: strip_extension_def)
  next
    case 3
    have no: "\<not> endswith ?s ''.jpg''"
    proof
      assume "endswith ?s ''.jpg''"
      then obtain pre where "lower stem @ ''.png'' = pre @ ''.jpg''"
        unfolding s 3 endswith_iff by blast
      then have "rev (lower stem @ ''.png'') = rev (pre @ ''.jpg'')"
        by (simp only:)
      then show False by simp
    qed
    have no': "\<not> endswith ?s ''.jpeg''"
    proof
      assume "endswith ?s ''.jpeg''"
      then obtain pre where "lower stem @ ''.png'' = pre @ ''.jpeg''"
        unfolding s 3 endswith_iff by blast
      then have "rev (lower stem @ ''.png'') = rev (pre @ ''.jpeg'')"
        by (simp only:)
      then show False by simp
    qed
    have "endswith ?s ''.png''"
      unfolding s endswith_iff using 3 by blast
    moreover from 3 len have "length ext = 4" by simp
    ultimately show ?thesis
      using no no' by (simp add: strip_extension_def)
  qed
qed

lemma splitext_of_eligible:
  assumes "CHR ''/'' \<notin> set (stem @ ext)"
    and "lower ext \<in> set [''.jpg'', ''.jpeg'', ''.png'']"
  shows "fst (splitext (stem @ ext)) =
           (if \<exists>c \<in> set stem. c \<noteq> CHR ''.'' then stem else stem @ ext)"
proof -
  from lower_ext_shape [OF assms(2)] obtain rest where
    rest: "ext = CHR ''.'' # rest" "CHR ''.'' \<notin> set rest"
    by blast
  with assms(1) have "CHR ''/'' \<notin> set stem" and "CHR ''/'' \<notin> set rest"
    by simp_all
  from splitext_stem [OF this rest(2)] show ?thesis
    by (simp add: rest(1))
qed

section \<open>The Loader on a directory\<close>

lemma load_face_state:
  "snd (load_face eng dir filename (encs, names)) =
     (case first_face eng dir filename of
        None \<Rightarrow> (encs, names)
      | Some fe \<Rightarrow> (encs @ [fe], names @ [fst (splitext filename)]))"
  by (simp add: load_face_def first_face_def detected_def Let_def
           split: sum.splits list.splits)

lemma load_faces_state:
  "snd (load_faces eng dir files (encs, names)) =
     (encs @ List.map_filter (first_face eng dir) files,
      names @ map (\<lambda>f. fst (splitext f)) (filter (has_face eng dir) files))"
proof (induction files arbitrary: encs names)
  case Nil
  then show ?case by (simp add: List.map_filter_simps)
next
  case (Cons filename files)
  obtain ev st where one: "load_face eng dir filename (encs, names) = (ev, st)"
    by (cases "load_face eng dir filename (encs, names)")
  obtain encs1 names1 where st: "st = (encs1, names1)"
    by (cases st)
  obtain ev' st' where rest: "load_faces eng dir files (encs1, names1) = (ev', st')"
    by (cases "load_faces eng dir files (encs1, names1)")
  have step: "(encs1, names1) =
      (case first_face eng dir filename of
         None \<Rightarrow> (encs, names)
       | Some fe \<Rightarrow> (encs @ [fe], names @ [fst (splitext filename)]))"
    using load_face_state [of eng dir filename encs names] one st by simp
  have "st' = (encs1 @ List.map_filter (first_face eng dir) files,
               names1 @ map (\<lambda>f. fst (splitext f)) (filter (has_face eng dir) files))"
    using Cons.IH [of encs1 names1] rest by simp
  moreover have "snd (load_faces eng dir (filename # files) (encs, names)) = st'"
    using one st rest by simp
  moreover have "has_face eng dir filename \<longleftrightarrow> first_face eng dir filename \<noteq> None"
    by (simp add: has_face_def)
  ultimately show ?case
    using step
    by (cases "first_face eng dir filename")
       (simp_all add: List.map_filter_simps)
qed

lemma load_face_warning:
  assumes "zero_faces eng dir filename"
  shows "Print (''Warning: No face found in '' @ filename @ ''. Skipping.'')
           \<in> set (fst (load_face eng dir filename st))"
  using assms
  by (cases st)
     (auto simp add: zero_faces_def detected_def load_face_def Let_def split: sum.splits)

lemma load_faces_warning:
  assumes "filename \<in> set files" and "zero_faces eng dir filename"
  shows "Print (''Warning: No face found in '' @ filename @ ''. Skipping.'')
           \<in> set (fst (load_faces eng dir files st))"
  using assms(1)
proof (induction files arbitrary: st)
  case Nil
  then show ?case by simp
next
  case (Cons f files)
  obtain ev st1 where one: "load_face eng dir f st = (ev, st1)"
    by (cases "load_face eng dir f st")
  obtain ev' st' where rest: "load_faces eng dir files st1 = (ev', st')"
    by (cases "load_faces eng dir files st1")
  from Cons.prems have "filename = f \<or> filename \<in> set files"
    by simp
  then show ?case
  proof
    assume "filename = f"
    with load_face_warning [OF assms(2), of st] one rest show ?thesis
      by simp
  next
    assume "filename \<in> set files"
    from Cons.IH [OF this, of st1] one rest show ?thesis
      by simp
  qed
qed

lemma load_known_faces_result:
  assumes "path_exists w dir" and "listdir w dir = Inr files"
  shows "snd (load_known_faces w eng dir) =
           Inr (List.map_filter (first_face eng dir) files,
                map (\<lambda>f. fst (splitext f)) (filter (has_face eng dir) files))"
    and "fst (load_known_faces w eng dir) =
           fst (load_faces eng dir files ([], [])) @
           [Print (''Loaded '' @ str_nat (length (List.map_filter (first_face eng dir) files))
                     @ '' known faces.'')]"
proof -
  obtain ev st where loop: "load_faces eng dir files ([], []) = (ev, st)"
    by (cases "load_faces eng dir files ([], [])")
  with load_faces_state [of eng dir files "[]" "[]"]
  have st: "st = (List.map_filter (first_face eng dir) files,
                  map (\<lambda>f. fst (splitext f)) (filter (has_face eng dir) files))"
    by simp
  show "snd (load_known_faces w eng dir) =
           Inr (List.map_filter (first_face eng dir) files,
                map (\<lambda>f. fst (splitext f)) (filter (has_face eng dir) files))"
    using assms loop st by (simp add: load_known_faces_def)
  show "fst (load_known_faces w eng dir) =
           fst (load_faces eng dir files ([], [])) @
           [Print (''Loaded '' @ str_nat (length (List.map_filter (first_face eng dir) files))
                     @ '' known faces.'')]"
    using assms loop st by (simp add: load_known_faces_def)
qed

lemma map_filter_first_face:
  "List.map_filter (first_face eng dir) files =
     map (\<lambda>f. the (first_face eng dir f)) (filter (has_face eng dir) files)"
proof -
  have "has_face eng dir = (\<lambda>f. first_face eng dir f \<noteq> None)"
    by (rule ext) (simp add: has_face_def)
  then show ?thesis
    by (simp add: List.map_filter_def comp_def)
qed

lemma example_directory:
  "load_known_faces example_world example_engine ''known_faces'' =
     ([Print ''Loading face from: known_faces/Alice.jpg'', Call Load_image_file,
       Call Face_encodings,
       Print ''Loading face from: known_faces/blank.jpeg'', Call Load_image_file,
       Call Face_encodings, Print ''Warning: No face found in blank.jpeg. Skipping.'',
       Print ''Loading face from: known_faces/broken.png'', Call Load_image_file,
       Print ''Error loading image broken.png: cannot identify image file'',
       Print ''Loading face from: known_faces/.jpg'', Call Load_image_file,
       Call Face_encodings,
       Print ''Loading face from: known_faces/Bob.PNG'', Call Load_image_file,
       Call Face_encodings,
       Print ''Loaded 3 known faces.''],
      Inr ([10, 50, 30], [''Alice'', ''.jpg'', ''Bob'']))"
  by code_simp

lemma first_face_found:
  assumes "eligible filename"
    and "load_image_file eng (path_join dir filename) = Inr im"
    and "face_encodings eng im None = Inr (fe # others)"
  shows "first_face eng dir filename = Some fe"
  using assms by (simp add: first_face_def detected_def)

text \<open>
  C3 as stated fails on the file named \<^verbatim>\<open>.jpg\<close>: it is eligible, a face is found in it,
  and the entry added is named \<^verbatim>\<open>.jpg\<close>, which is not the file name with the suffix
  \<^verbatim>\<open>.jpg\<close> removed.
\<close>

theorem name_of_dot_file_counterexample:
  "eligible ''.jpg'' \<and>
   load_image_file example_engine (path_join ''known_faces'' ''.jpg'') = Inr hidden_img \<and>
   face_encodings example_engine hidden_img None = Inr [50] \<and>
   snd (load_face example_engine ''known_faces'' ''.jpg'' ([], [])) = ([50], [''.jpg'']) \<and>
   strip_extension ''.jpg'' = [] \<and>
   ''.jpg'' \<noteq> strip_extension ''.jpg''"
  by code_simp

text \<open>
  C3, amended. For every eligible file that loads and in which the engine finds one or
  more faces, the Loader appends exactly one entry: the encoding of the first detected
  face, under the name \<^verbatim>\<open>os.path.splitext(filename)[0]\<close>. For a directory entry (a name
  without \<^verbatim>\<open>/\<close>) that name is the file name with its image suffix removed when some
  character before the suffix is not a dot, and the whole file name otherwise.
\<close>

theorem loader_adds_first_face:
  assumes "eligible filename"
    and "load_image_file eng (path_join dir filename) = Inr im"
    and "face_encodings eng im None = Inr (fe # others)"
  shows "snd (load_face eng dir filename (encs, names)) =
           (encs @ [fe], names @ [fst (splitext filename)]) \<and>
         (CHR ''/'' \<notin> set filename \<longrightarrow>
            fst (splitext filename) =
              (if \<exists>c \<in> set (strip_extension filename). c \<noteq> CHR ''.''
               then strip_extension filename else filename))"
proof (intro conjI impI)
  from first_face_found [OF assms]
  show "snd (load_face eng dir filename (encs, names)) =
          (encs @ [fe], names @ [fst (splitext filename)])"
    by (simp add: load_face_state)
next
  assume slash: "CHR ''/'' \<notin> set filename"
  from eligible_decomposition [OF assms(1)] obtain stem ext where
    f: "filename = stem @ ext" and ext: "lower ext \<in> set [''.jpg'', ''.jpeg'', ''.png'']"
    by blast
  have "strip_extension filename = stem"
    unfolding f using ext by (rule strip_extension_stem)
  moreover have "fst (splitext filename) =
      (if \<exists>c \<in> set stem. c \<noteq> CHR ''.'' then stem else filename)"
    using slash unfolding f using ext by (rule splitext_of_eligible)
  ultimately show "fst (splitext filename) =
      (if \<exists>c \<in> set (strip_extension filename). c \<noteq> CHR ''.''
       then strip_extension filename else filename)"
    by (simp only:)
qed

theorem loader_adds_first_face_witness:
  "eligible ''Alice.jpg'' \<and>
   load_image_file example_engine (path_join ''known_faces'' ''Alice.jpg'') = Inr alice_img \<and>
   face_encodings example_engine alice_img None = Inr [10, 11] \<and>
   snd (load_face example_engine ''known_faces'' ''Alice.jpg'' ([30], [''Bob''])) =
     ([30, 10], [''Bob'', ''Alice''])"
proof -
  have e: "eligible ''Alice.jpg''"
    by code_simp
  have l: "load_image_file example_engine (path_join ''known_faces'' ''Alice.jpg'') = Inr alice_img"
    by code_simp
  have d: "face_encodings example_engine alice_img None = Inr (10 # [11])"
    by code_simp
  have s: "strip_extension ''Alice.jpg'' = ''Alice''"
    by code_simp
  have n: "CHR ''/'' \<notin> set ''Alice.jpg''"
    by simp
  note inst = loader_adds_first_face [OF e l d, of "[30]" "[''Bob'']"]
  from conjunct2 [OF inst] n
  have "fst (splitext ''Alice.jpg'') =
          (if \<exists>c \<in> set (strip_extension ''Alice.jpg''). c \<noteq> CHR ''.''
           then strip_extension ''Alice.jpg'' else ''Alice.jpg'')"
    by (rule mp)
  then have "fst (splitext ''Alice.jpg'') = ''Alice''"
    unfolding s by simp
  with conjunct1 [OF inst]
  have "snd (load_face example_engine ''known_faces'' ''Alice.jpg'' ([30], [''Bob''])) =
          ([30, 10], [''Bob'', ''Alice''])"
    by simp
  with e l d show ?thesis
    by simp
qed

lemma skipped_adds_nothing:
  assumes "\<not> has_face eng dir filename"
  shows "snd (load_face eng dir filename st) = st"
proof -
  obtain encs names where st: "st = (encs, names)"
    by (cases st)
  from assms have "first_face eng dir filename = None"
    by (simp add: has_face_def)
  then show ?thesis
    by (simp add: st load_face_state)
qed

lemma skipped_has_no_face:
  assumes "zero_faces eng dir filename \<or> detected eng dir filename = None"
  shows "\<not> has_face eng dir filename"
  using assms by (auto simp add: has_face_def first_face_def zero_faces_def)

text \<open>
  C4. For a directory that exists and can be listed, the Reference Set returned is
  exactly the entries of the listed files that are eligible and have at least one
  detected face, in listing order: both lists have as many elements as there are such
  files. A file with no detected face, or one that fails to load, is none of them and
  leaves the lists as they are; and for every listed eligible file with no detected face
  the warning line with its file name is printed.
\<close>

theorem loader_result_is_files_with_faces:
  assumes "path_exists w dir" and "listdir w dir = Inr files"
  shows "snd (load_known_faces w eng dir) =
           Inr (map (\<lambda>f. the (first_face eng dir f)) (filter (has_face eng dir) files),
                map (\<lambda>f. fst (splitext f)) (filter (has_face eng dir) files)) \<and>
         (\<forall>encs names. snd (load_known_faces w eng dir) = Inr (encs, names) \<longrightarrow>
            length encs = length (filter (has_face eng dir) files) \<and>
            length names = length (filter (has_face eng dir) files)) \<and>
         (\<forall>f. zero_faces eng dir f \<or> detected eng dir f = None \<longrightarrow>
            \<not> has_face eng dir f \<and> (\<forall>st. snd (load_face eng dir f st) = st)) \<and>
         (\<forall>f \<in> set files. zero_faces eng dir f \<longrightarrow>
            Print (''Warning: No face found in '' @ f @ ''. Skipping.'')
              \<in> set (fst (load_known_faces w eng dir)))"
proof -
  have res: "snd (load_known_faces w eng dir) =
           Inr (map (\<lambda>f. the (first_face eng dir f)) (filter (has_face eng dir) files),
                map (\<lambda>f. fst (splitext f)) (filter (has_face eng dir) files))"
    using load_known_faces_result(1) [OF assms, of eng]
    by (simp only: map_filter_first_face)
  have sizes: "\<forall>encs names. snd (load_known_faces w eng dir) = Inr (encs, names) \<longrightarrow>
            length encs = length (filter (has_face eng dir) files) \<and>
            length names = length (filter (has_face eng dir) files)"
    unfolding res by simp
  have skipped: "\<forall>f. zero_faces eng dir f \<or> detected eng dir f = None \<longrightarrow>
            \<not> has_face eng dir f \<and> (\<forall>st. snd (load_face eng dir f st) = st)"
    using skipped_has_no_face skipped_adds_nothing by blast
  have warned: "\<forall>f \<in> set files. zero_faces eng dir f \<longrightarrow>
            Print (''Warning: No face found in '' @ f @ ''. Skipping.'')
              \<in> set (fst (load_known_faces w eng dir))"
  proof (intro ballI impI)
    fix f
    assume "f \<in> set files" and "zero_faces eng dir f"
    then have "Print (''Warning: No face found in '' @ f @ ''. Skipping.'')
                 \<in> set (fst (load_faces eng dir files ([], [])))"
      by (rule load_faces_warning)
    then show "Print (''Warning: No face found in '' @ f @ ''. Skipping.'')
                 \<in> set (fst (load_known_faces w eng dir))"
      unfolding load_known_faces_result(2) [OF assms, of eng] by simp
  qed
  from res sizes skipped warned show ?thesis
    by (intro conjI)
qed

theorem loader_result_is_files_with_faces_witness:
  "filter (has_face example_engine ''known_faces'')
     [''Alice.jpg'', ''notes.txt'', ''blank.jpeg'', ''broken.png'', ''.jpg'', ''Bob.PNG'']
     = [''Alice.jpg'', ''.jpg'', ''Bob.PNG''] \<and>
   snd (load_known_faces example_world example_engine ''known_faces'') =
     Inr ([10, 50, 30], [''Alice'', ''.jpg'', ''Bob'']) \<and>
   zero_faces example_engine ''known_faces'' ''blank.jpeg'' \<and>
   Print ''Warning: No face found in blank.jpeg. Skipping.''
     \<in> set (fst (load_known_faces example_world example_engine ''known_faces''))"
proof -
  define files where
    "files = [''Alice.jpg'', ''notes.txt'', ''blank.jpeg'', ''broken.png'', ''.jpg'', ''Bob.PNG'']"
  define run where "run = load_known_faces example_world example_engine ''known_faces''"
  have p: "path_exists example_world ''known_faces''"
    and l: "listdir example_world ''known_faces'' = Inr files"
    by (simp_all add: example_world_def files_def)
  have good: "filter (has_face example_engine ''known_faces'') files
                = [''Alice.jpg'', ''.jpg'', ''Bob.PNG'']"
    unfolding files_def by code_simp
  have encs: "map (\<lambda>f. the (first_face example_engine ''known_faces'' f))
                [''Alice.jpg'', ''.jpg'', ''Bob.PNG''] = [10, 50, 30]"
    by code_simp
  have stems: "map (\<lambda>f. fst (splitext f)) [''Alice.jpg'', ''.jpg'', ''Bob.PNG'']
                 = [''Alice'', ''.jpg'', ''Bob'']"
    by code_simp
  have z: "zero_faces example_engine ''known_faces'' ''blank.jpeg''"
    by code_simp
  have m: "''blank.jpeg'' \<in> set files"
    by (simp add: files_def)
  note inst = loader_result_is_files_with_faces [OF p l, of example_engine]
  from conjunct1 [OF inst]
  have r: "snd run = Inr ([10, 50, 30], [''Alice'', ''.jpg'', ''Bob''])"
    unfolding run_def good encs stems .
  from conjunct2 [OF conjunct2 [OF conjunct2 [OF inst]]]
  have "\<forall>f \<in> set files. zero_faces example_engine ''known_faces'' f \<longrightarrow>
          Print (''Warning: No face found in '' @ f @ ''. Skipping.'') \<in> set (fst run)"
    unfolding run_def .
  from mp [OF bspec [OF this m] z]
  have "Print ''Warning: No face found in blank.jpeg. Skipping.'' \<in> set (fst run)"
    by simp
  with good r z show ?thesis
    unfolding run_def files_def by (intro conjI)
qed

text \<open>
  C9. The two lists the Loader builds are parallel. Handling one directory entry keeps
  the two lists at equal length, and so does the whole loop; the lists returned have
  equal length, and at every index the name and the encoding come from one and the same
  listed file: the name is that file's name without its extension and the encoding is
  the first face detected in it.
\<close>

theorem loader_lists_stay_parallel:
  "(\<forall>encs' names'. length encs = length names \<and>
      snd (load_face eng dir filename (encs, names)) = (encs', names') \<longrightarrow>
      length encs' = length names') \<and>
   (\<forall>encs' names'. length encs = length names \<and>
      snd (load_faces eng dir files (encs, names)) = (encs', names') \<longrightarrow>
      length encs' = length names') \<and>
   (\<forall>es ns. snd (load_known_faces w eng dir) = Inr (es, ns) \<longrightarrow>
      length es = length ns \<and>
      (\<forall>i < length ns.
         \<exists>listing f. listdir w dir = Inr listing \<and> f \<in> set listing \<and>
            first_face eng dir f = Some (es ! i) \<and> ns ! i = fst (splitext f)))"
proof (intro conjI allI impI)
  fix encs' names'
  assume "length encs = length names \<and>
          snd (load_face eng dir filename (encs, names)) = (encs', names')"
  then show "length encs' = length names'"
    by (cases "first_face eng dir filename") (auto simp add: load_face_state)
next
  fix encs' names'
  assume "length encs = length names \<and>
          snd (load_faces eng dir files (encs, names)) = (encs', names')"
  then show "length encs' = length names'"
    by (auto simp add: load_faces_state map_filter_first_face)
next
  fix es ns
  assume res: "snd (load_known_faces w eng dir) = Inr (es, ns)"
  show "length es = length ns"
  proof (cases "path_exists w dir")
    case False
    with res show ?thesis by (simp add: load_known_faces_def)
  next
    case True
    show ?thesis
    proof (cases "listdir w dir")
      case (Inl e)
      with True res show ?thesis by (simp add: load_known_faces_def)
    next
      case (Inr listing)
      from load_known_faces_result(1) [OF True Inr, of eng] res
      show ?thesis by (simp add: map_filter_first_face)
    qed
  qed
next
  fix es ns i
  assume res: "snd (load_known_faces w eng dir) = Inr (es, ns)" and i: "i < length ns"
  show "\<exists>listing f. listdir w dir = Inr listing \<and> f \<in> set listing \<and>
            first_face eng dir f = Some (es ! i) \<and> ns ! i = fst (splitext f)"
  proof (cases "path_exists w dir")
    case False
    with res i show ?thesis by (simp add: load_known_faces_def)
  next
    case True
    show ?thesis
    proof (cases "listdir w dir")
      case (Inl e)
      with True res show ?thesis by (simp add: load_known_faces_def)
    next
      case (Inr listing)
      define good where "good = filter (has_face eng dir) listing"
      from load_known_faces_result(1) [OF True Inr, of eng] res
      have es: "es = map (\<lambda>f. the (first_face eng dir f)) good"
        and ns: "ns = map (\<lambda>f. fst (splitext f)) good"
        by (simp_all add: map_filter_first_face good_def)
      from i ns have ig: "i < length good"
        by simp
      then have "good ! i \<in> set good"
        by simp
      then have mem: "good ! i \<in> set listing" and face: "has_face eng dir (good ! i)"
        by (simp_all add: good_def)
      from face have "first_face eng dir (good ! i) = Some (es ! i)"
        using ig by (auto simp add: es has_face_def)
      moreover have "ns ! i = fst (splitext (good ! i))"
        using ig by (simp add: ns)
      ultimately show ?thesis
        using Inr mem by blast
    qed
  qed
qed

theorem loader_lists_stay_parallel_witness:
  "snd (load_known_faces example_world example_engine ''known_faces'') =
     Inr ([10, 50, 30], [''Alice'', ''.jpg'', ''Bob'']) \<and>
   length [10, 50, 30 :: int] = length [''Alice'', ''.jpg'', ''Bob'']"
proof -
  have r: "snd (load_known_faces example_world example_engine ''known_faces'') =
             Inr ([10, 50, 30], [''Alice'', ''.jpg'', ''Bob''])"
    unfolding example_directory by simp
  note inst = loader_lists_stay_parallel
      [of "[]" "[]" example_engine "''known_faces''" "''Alice.jpg''" "[]" example_world]
  from conjunct2 [OF conjunct2 [OF inst]]
  have "snd (load_known_faces example_world example_engine ''known_faces'') =
          Inr ([10, 50, 30], [''Alice'', ''.jpg'', ''Bob'']) \<longrightarrow>
        length [10, 50, 30 :: int] = length [''Alice'', ''.jpg'', ''Bob'']"
    by blast
  from mp [OF this r] r show ?thesis
    by (intro conjI)
qed

section \<open>The Loader on a missing directory\<close>

text \<open>
  C5. For a path that does not exist, the Loader prints one line that reports the
  condition and returns the two empty lists; no exception is raised and nothing else is
  done, so the caller decides what happens next.
\<close>

theorem load_known_faces_missing_directory:
  assumes "\<not> path_exists w known_faces_dir"
  shows "load_known_faces w eng known_faces_dir =
           ([Print (''Error: The directory '' @ quote @ known_faces_dir @ quote
                      @ '' does not exist.'')],
            Inr ([], []))"
  using assms by (simp add: load_known_faces_def)

theorem load_known_faces_missing_directory_witness:
  "\<not> path_exists example_world ''nowhere'' \<and>
   load_known_faces example_world example_engine ''nowhere'' =
     ([Print (''Error: The directory '' @ quote @ ''nowhere'' @ quote @ '' does not exist.'')],
      Inr ([], []))"
  using load_known_faces_missing_directory [of example_world "''nowhere''" example_engine]
  by (simp add: example_world_def)

end
